theory Spec2Isabelle
  imports Main
begin

section \<open>Element types\<close>

text \<open>
  \<open>SimpleVector<Type>\<close> is a template. What the container uses of \<open>Type\<close> is its two
  traits (\<open>std::is_copy_assignable_v\<close>, \<open>std::is_nothrow_move_assignable_v\<close>), its copy
  and move assignment operators and its default constructor \<open>Type()\<close>. An assignment
  \<open>dst = src\<close> either returns or throws; in both cases it may leave the destination in
  a new state, and a move may also change the source.
\<close>

datatype 'a copied = Copied 'a | CopyThrew 'a

datatype 'a moved = Moved 'a 'a | MoveThrew 'a 'a

record 'a elem_type =
  is_copy_assignable :: bool
  is_nothrow_move_assignable :: bool
  copy_assign :: "'a \<Rightarrow> 'a \<Rightarrow> 'a copied"
  move_assign :: "'a \<Rightarrow> 'a \<Rightarrow> 'a moved"
  default_value :: 'a

text \<open>An argument passed as \<open>const Type&\<close> or as \<open>Type&&\<close>; \<open>std::forward<U>\<close> then
  selects copy or move assignment. The argument is a reference: \<open>Lvalue x\<close> and
  \<open>Rvalue x\<close> refer to an object \<open>x\<close> that is no element of a buffer, \<open>LvalueAt b k\<close> is
  a \<open>const Type&\<close> to element \<open>k\<close> of the buffer \<open>b\<close> (as in \<open>v.Insert(v.begin(), v[2])\<close>)
  and is read when the assignment runs. An argument bound to \<open>Type&&\<close> is taken to be
  the only reference to its object, so it is no element of a buffer.\<close>

datatype 'a arg = Lvalue 'a | Rvalue 'a | LvalueAt nat nat

datatype error = OutOfRange | ElementThrow

section \<open>The owning buffer\<close>

text \<open>
  Modelled from the spec: \<open>ArrayPtr<Type>\<close> (array_ptr.h), the owning buffer. The spec
  requires of it: allocate(n) gives a buffer of n raw slots, indexed read and write,
  transfer of ownership, exchange of two buffers, and release exactly once. A buffer is a
  block of the heap, named by its address; address 0 is \<open>nullptr\<close>. The slots of a new
  block hold \<open>Type()\<close>, and a buffer of zero slots is the null pointer (the default
  constructed container of the tests has \<open>begin() == nullptr\<close>). Allocation is taken to
  succeed.
\<close>

type_synonym addr = nat

record 'a heap =
  blocks :: "addr \<Rightarrow> 'a list option"
  brk :: addr

definition buf :: "'a heap \<Rightarrow> addr \<Rightarrow> 'a list" where
  "buf h p = (case blocks h p of None \<Rightarrow> [] | Some xs \<Rightarrow> xs)"

definition load :: "'a heap \<Rightarrow> addr \<Rightarrow> nat \<Rightarrow> 'a" where
  "load h p i = buf h p ! i"

definition store :: "'a heap \<Rightarrow> addr \<Rightarrow> nat \<Rightarrow> 'a \<Rightarrow> 'a heap" where
  "store h p i x =
     (case blocks h p of
        None \<Rightarrow> h
      | Some xs \<Rightarrow> h\<lparr>blocks := (blocks h)(p \<mapsto> xs[i := x])\<rparr>)"

text \<open>Modelled from the spec: the constructor \<open>ArrayPtr(size)\<close> of array_ptr.h, which
  allocates a buffer of \<open>size\<close> slots (none for \<open>size = 0\<close>).\<close>

definition ArrayPtr_new :: "'a elem_type \<Rightarrow> nat \<Rightarrow> 'a heap \<Rightarrow> addr \<times> 'a heap" where
  "ArrayPtr_new T n h =
     (if n = 0 then (0, h)
      else (brk h, h\<lparr>blocks := (blocks h)(brk h \<mapsto> replicate n (default_value T)),
                      brk := Suc (brk h)\<rparr>))"

text \<open>Modelled from the spec: the destructor of \<open>ArrayPtr\<close> of array_ptr.h, which
  releases the buffer; deleting \<open>nullptr\<close> does nothing.\<close>

definition ArrayPtr_delete :: "addr \<Rightarrow> 'a heap \<Rightarrow> 'a heap" where
  "ArrayPtr_delete p h = h\<lparr>blocks := (blocks h)(p := None)\<rparr>"

section \<open>Pointers and iterators\<close>

text \<open>
  \<open>Iterator = Type*\<close>. A pointer is a block and an offset in elements. A pointer
  computed from \<open>nullptr\<close> has no block behind it: it is a bare 64-bit machine address
  (counted in elements), so its arithmetic wraps and \<open>nullptr - 1\<close>, which the language
  leaves undefined, is the highest address, as on the usual flat 64-bit targets.

  Pointers are compared and subtracted by their machine addresses. Modelled from the
  spec: where the allocator of \<open>ArrayPtr\<close> (array_ptr.h) places a buffer is not in the
  source; block \<open>b\<close> is placed at address \<open>b * 2^40\<close>, so buffers lie far apart in the
  order of their allocation and an address is never used twice.
\<close>

type_synonym pointer = "addr \<times> int"

definition ptr_add :: "pointer \<Rightarrow> int \<Rightarrow> pointer" where
  "ptr_add p n =
     (if fst p = 0 then (0, (snd p + n) mod 2 ^ 64) else (fst p, snd p + n))"

definition address :: "pointer \<Rightarrow> int" where
  "address p = int (fst p) * 2 ^ 40 + snd p"

definition ptr_less :: "pointer \<Rightarrow> pointer \<Rightarrow> bool" where
  "ptr_less p q \<longleftrightarrow> address p < address q"

definition ptr_diff :: "pointer \<Rightarrow> pointer \<Rightarrow> int" where
  "ptr_diff p q = address p - address q"

section \<open>Assignments into slots and the standard algorithms\<close>

type_synonym ('r, 's) outcome = "(error + 'r) \<times> 's"

text \<open>\<open>p[i] = std::forward<U>(item)\<close>. What a move leaves in the caller's argument is
  not part of the container's state and is dropped.\<close>

fun assign_item :: "'a elem_type \<Rightarrow> 'a arg \<Rightarrow> addr \<Rightarrow> nat \<Rightarrow> 'a heap \<Rightarrow> (unit, 'a heap) outcome" where
  "assign_item T (Lvalue x) p i h =
     (case copy_assign T (load h p i) x of
        Copied d \<Rightarrow> (Inr (), store h p i d)
      | CopyThrew d \<Rightarrow> (Inl ElementThrow, store h p i d))"
| "assign_item T (Rvalue x) p i h =
     (case move_assign T (load h p i) x of
        Moved d s \<Rightarrow> (Inr (), store h p i d)
      | MoveThrew d s \<Rightarrow> (Inl ElementThrow, store h p i d))"
| "assign_item T (LvalueAt b k) p i h =
     (case copy_assign T (load h p i) (load h b k) of
        Copied d \<Rightarrow> (Inr (), store h p i d)
      | CopyThrew d \<Rightarrow> (Inl ElementThrow, store h p i d))"

text \<open>\<open>std::copy(first, first + n, d_first)\<close>: \<open>*d_first++ = *first++\<close>, front to back.\<close>

fun copy_range :: "'a elem_type \<Rightarrow> addr \<Rightarrow> nat \<Rightarrow> addr \<Rightarrow> nat \<Rightarrow> nat \<Rightarrow> 'a heap \<Rightarrow> (unit, 'a heap) outcome" where
  "copy_range T sp si dp di 0 h = (Inr (), h)"
| "copy_range T sp si dp di (Suc n) h =
     (case copy_assign T (load h dp di) (load h sp si) of
        CopyThrew d \<Rightarrow> (Inl ElementThrow, store h dp di d)
      | Copied d \<Rightarrow> copy_range T sp (Suc si) dp (Suc di) n (store h dp di d))"

text \<open>\<open>std::move(first, first + n, d_first)\<close>: \<open>*d_first++ = std::move(*first++)\<close>.
  The assignment writes the destination slot and the moved-from source slot.\<close>

fun move_range :: "'a elem_type \<Rightarrow> addr \<Rightarrow> nat \<Rightarrow> addr \<Rightarrow> nat \<Rightarrow> nat \<Rightarrow> 'a heap \<Rightarrow> (unit, 'a heap) outcome" where
  "move_range T sp si dp di 0 h = (Inr (), h)"
| "move_range T sp si dp di (Suc n) h =
     (case move_assign T (load h dp di) (load h sp si) of
        MoveThrew d s \<Rightarrow> (Inl ElementThrow, store (store h dp di d) sp si s)
      | Moved d s \<Rightarrow> move_range T sp (Suc si) dp (Suc di) n (store (store h dp di d) sp si s))"

text \<open>\<open>std::copy_backward(first, first + n, d_last)\<close>: \<open>*(--d_last) = *(--last)\<close>,
  back to front.\<close>

fun copy_backward :: "'a elem_type \<Rightarrow> addr \<Rightarrow> nat \<Rightarrow> addr \<Rightarrow> nat \<Rightarrow> nat \<Rightarrow> 'a heap \<Rightarrow> (unit, 'a heap) outcome" where
  "copy_backward T sp first dp d_last 0 h = (Inr (), h)"
| "copy_backward T sp first dp d_last (Suc n) h =
     (case copy_assign T (load h dp (d_last - 1)) (load h sp (first + n)) of
        CopyThrew d \<Rightarrow> (Inl ElementThrow, store h dp (d_last - 1) d)
      | Copied d \<Rightarrow> copy_backward T sp first dp (d_last - 1) n (store h dp (d_last - 1) d))"

text \<open>\<open>std::move_backward(first, first + n, d_last)\<close>\<close>

fun move_backward :: "'a elem_type \<Rightarrow> addr \<Rightarrow> nat \<Rightarrow> addr \<Rightarrow> nat \<Rightarrow> nat \<Rightarrow> 'a heap \<Rightarrow> (unit, 'a heap) outcome" where
  "move_backward T sp first dp d_last 0 h = (Inr (), h)"
| "move_backward T sp first dp d_last (Suc n) h =
     (case move_assign T (load h dp (d_last - 1)) (load h sp (first + n)) of
        MoveThrew d s \<Rightarrow>
          (Inl ElementThrow, store (store h dp (d_last - 1) d) sp (first + n) s)
      | Moved d s \<Rightarrow>
          move_backward T sp first dp (d_last - 1) n
            (store (store h dp (d_last - 1) d) sp (first + n) s))"

text \<open>\<open>std::generate(p + i, p + i + n, []{ return Type(); })\<close>: each slot is assigned
  from a temporary \<open>Type()\<close>.\<close>

fun generate_default :: "'a elem_type \<Rightarrow> addr \<Rightarrow> nat \<Rightarrow> nat \<Rightarrow> 'a heap \<Rightarrow> (unit, 'a heap) outcome" where
  "generate_default T p i 0 h = (Inr (), h)"
| "generate_default T p i (Suc n) h =
     (case move_assign T (load h p i) (default_value T) of
        MoveThrew d s \<Rightarrow> (Inl ElementThrow, store h p i d)
      | Moved d s \<Rightarrow> generate_default T p (Suc i) n (store h p i d))"

section \<open>The container\<close>

text \<open>
  \<open>size_t\<close> is modelled as \<open>nat\<close>: a capacity is the length of an allocated buffer, so
  \<open>capacity_ * 2\<close> and \<open>++size_\<close> stay far below \<open>2^64\<close>. The one place where the
  source can wrap, \<open>--size_\<close> at 0, is written out.
\<close>

text \<open>The fields \<open>ptr_\<close>, \<open>size_\<close> and \<open>capacity_\<close>.\<close>

record SimpleVector =
  vptr :: addr
  vsize :: nat
  vcapacity :: nat

type_synonym 'a vstate = "'a heap \<times> SimpleVector"

definition size_t_dec :: "nat \<Rightarrow> nat" where
  "size_t_dec n = (if n = 0 then 2 ^ 64 - 1 else n - 1)"

text \<open>\<open>SimpleVector() noexcept = default\<close>\<close>

definition SimpleVector_default :: SimpleVector where
  "SimpleVector_default = \<lparr>vptr = 0, vsize = 0, vcapacity = 0\<rparr>"

definition GetSize :: "SimpleVector \<Rightarrow> nat" where
  "GetSize v = vsize v"

definition GetCapacity :: "SimpleVector \<Rightarrow> nat" where
  "GetCapacity v = vcapacity v"

definition begin_it :: "SimpleVector \<Rightarrow> pointer" where
  "begin_it v = (vptr v, 0)"

definition end_it :: "SimpleVector \<Rightarrow> pointer" where
  "end_it v = ptr_add (vptr v, 0) (int (vsize v))"

text \<open>The live elements \<open>[begin(), end())\<close>, read through \<open>operator[]\<close>.\<close>

definition elems :: "'a heap \<Rightarrow> SimpleVector \<Rightarrow> 'a list" where
  "elems h v = take (vsize v) (buf h (vptr v))"

definition IteratorChecking :: "pointer \<Rightarrow> pointer \<Rightarrow> pointer \<Rightarrow> error + unit" where
  "IteratorChecking it first_it last_it =
     (if ptr_less it first_it \<or> ptr_less last_it it then Inl OutOfRange else Inr ())"

text \<open>The condition of the \<open>if constexpr\<close> in \<open>DataOverwrite\<close> and in the in-place branch
  of \<open>UniversalInsert\<close>.\<close>

definition move_policy :: "'a elem_type \<Rightarrow> bool" where
  "move_policy T \<longleftrightarrow> \<not> is_copy_assignable T \<or> is_nothrow_move_assignable T"

text \<open>\<open>DataOverwrite(in_first, in_last, out_first)\<close>. The number of elements is
  \<open>in_last - in_first\<close>; the container never passes a negative distance on a container
  with a buffer, and the model then transfers nothing.\<close>

definition DataOverwrite :: "'a elem_type \<Rightarrow> pointer \<Rightarrow> pointer \<Rightarrow> pointer \<Rightarrow> 'a heap \<Rightarrow> (unit, 'a heap) outcome" where
  "DataOverwrite T in_first in_last out_first h =
     (let n = nat (ptr_diff in_last in_first) in
      if \<not> is_copy_assignable T \<or> is_nothrow_move_assignable T
      then move_range T (fst in_first) (nat (snd in_first)) (fst out_first) (nat (snd out_first)) n h
      else copy_range T (fst in_first) (nat (snd in_first)) (fst out_first) (nat (snd out_first)) n h)"

definition grown_capacity :: "nat \<Rightarrow> nat" where
  "grown_capacity c = (if c = 0 then 1 else c * 2)"

definition UniversalPushBack :: "'a elem_type \<Rightarrow> 'a arg \<Rightarrow> 'a vstate \<Rightarrow> (unit, 'a vstate) outcome" where
  "UniversalPushBack T item s =
     (let h = fst s; v = snd s in
      if vsize v = vcapacity v then
        (let new_capacity = grown_capacity (vcapacity v);
             (array, h1) = ArrayPtr_new T new_capacity h
         in case assign_item T item array (vsize v) h1 of
              (Inl e, h2) \<Rightarrow> (Inl e, (ArrayPtr_delete array h2, v))
            | (Inr _, h2) \<Rightarrow>
                (case DataOverwrite T (begin_it v) (end_it v) (array, 0) h2 of
                   (Inl e, h3) \<Rightarrow> (Inl e, (ArrayPtr_delete array h3, v))
                 | (Inr _, h3) \<Rightarrow>
                     (Inr (), (ArrayPtr_delete (vptr v) h3,
                        v\<lparr>vptr := array, vcapacity := new_capacity, vsize := Suc (vsize v)\<rparr>))))
      else
        (case assign_item T item (vptr v) (vsize v) h of
           (Inl e, h1) \<Rightarrow> (Inl e, (h1, v))
         | (Inr _, h1) \<Rightarrow> (Inr (), (h1, v\<lparr>vsize := Suc (vsize v)\<rparr>))))"

definition PushBack :: "'a elem_type \<Rightarrow> 'a arg \<Rightarrow> 'a vstate \<Rightarrow> (unit, 'a vstate) outcome" where
  "PushBack T item s = UniversalPushBack T item s"

text \<open>The in-place right shift of \<open>UniversalInsert\<close>: \<open>begin() + idx\<close> to \<open>end()\<close> is
  moved or copied backward, ending at \<open>end() + 1\<close>.\<close>

definition InsertShift :: "'a elem_type \<Rightarrow> SimpleVector \<Rightarrow> nat \<Rightarrow> 'a heap \<Rightarrow> (unit, 'a heap) outcome" where
  "InsertShift T v idx h =
     (if is_nothrow_move_assignable T \<or> \<not> is_copy_assignable T
      then move_backward T (vptr v) idx (vptr v) (Suc (vsize v)) (vsize v - idx) h
      else copy_backward T (vptr v) idx (vptr v) (Suc (vsize v)) (vsize v - idx) h)"

definition UniversalInsert :: "'a elem_type \<Rightarrow> pointer \<Rightarrow> 'a arg \<Rightarrow> 'a vstate \<Rightarrow> (pointer, 'a vstate) outcome" where
  "UniversalInsert T pos val s =
     (let h = fst s; v = snd s in
      case IteratorChecking pos (begin_it v) (end_it v) of
        Inl e \<Rightarrow> (Inl e, (h, v))
      | Inr _ \<Rightarrow>
         (let idx = nat (ptr_diff pos (begin_it v)) in
          if vsize v = vcapacity v then
            (let new_capacity = grown_capacity (vcapacity v);
                 (array, h1) = ArrayPtr_new T new_capacity h
             in case assign_item T val array idx h1 of
                  (Inl e, h2) \<Rightarrow> (Inl e, (ArrayPtr_delete array h2, v))
                | (Inr _, h2) \<Rightarrow>
                   (case DataOverwrite T (begin_it v) (ptr_add (begin_it v) (int idx)) (array, 0) h2 of
                      (Inl e, h3) \<Rightarrow> (Inl e, (ArrayPtr_delete array h3, v))
                    | (Inr _, h3) \<Rightarrow>
                       (case DataOverwrite T (ptr_add (begin_it v) (int idx)) (end_it v)
                               (array, int idx + 1) h3 of
                          (Inl e, h4) \<Rightarrow> (Inl e, (ArrayPtr_delete array h4, v))
                        | (Inr _, h4) \<Rightarrow>
                           (let v' = v\<lparr>vptr := array, vcapacity := new_capacity,
                                        vsize := Suc (vsize v)\<rparr>
                            in (Inr (ptr_add (begin_it v') (int idx)),
                                (ArrayPtr_delete (vptr v) h4, v'))))))
          else
            (case InsertShift T v idx h of
               (Inl e, h1) \<Rightarrow> (Inl e, (h1, v))
             | (Inr _, h1) \<Rightarrow>
                (case assign_item T val (vptr v) idx h1 of
                   (Inl e, h2) \<Rightarrow> (Inl e, (h2, v))
                 | (Inr _, h2) \<Rightarrow>
                    (let v' = v\<lparr>vsize := Suc (vsize v)\<rparr>
                     in (Inr (ptr_add (begin_it v') (int idx)), (h2, v')))))))"

definition Insert :: "'a elem_type \<Rightarrow> pointer \<Rightarrow> 'a arg \<Rightarrow> 'a vstate \<Rightarrow> (pointer, 'a vstate) outcome" where
  "Insert T pos val s = UniversalInsert T pos val s"

definition PopBack :: "'a vstate \<Rightarrow> (unit, 'a vstate) outcome" where
  "PopBack s =
     (let h = fst s; v = snd s in
      if vsize v = 0 then (Inr (), (h, v))
      else (Inr (), (h, v\<lparr>vsize := vsize v - 1\<rparr>)))"

definition Erase :: "'a elem_type \<Rightarrow> pointer \<Rightarrow> 'a vstate \<Rightarrow> (pointer, 'a vstate) outcome" where
  "Erase T pos s =
     (let h = fst s; v = snd s in
      case IteratorChecking pos (begin_it v) (ptr_add (end_it v) (- 1)) of
        Inl e \<Rightarrow> (Inl e, (h, v))
      | Inr _ \<Rightarrow>
         (case DataOverwrite T (ptr_add pos 1) (end_it v) pos h of
            (Inl e, h1) \<Rightarrow> (Inl e, (h1, v))
          | (Inr _, h1) \<Rightarrow> (Inr pos, (h1, v\<lparr>vsize := size_t_dec (vsize v)\<rparr>))))"

definition Clear :: "'a vstate \<Rightarrow> (unit, 'a vstate) outcome" where
  "Clear s = (Inr (), (fst s, (snd s)\<lparr>vsize := 0\<rparr>))"

definition Resize :: "'a elem_type \<Rightarrow> nat \<Rightarrow> 'a vstate \<Rightarrow> (unit, 'a vstate) outcome" where
  "Resize T new_size s =
     (let h = fst s; v = snd s in
      if new_size \<le> vcapacity v then
        (if new_size > vsize v then
           (case generate_default T (vptr v) (vsize v) (new_size - vsize v) h of
              (Inl e, h1) \<Rightarrow> (Inl e, (h1, v))
            | (Inr _, h1) \<Rightarrow> (Inr (), (h1, v\<lparr>vsize := new_size\<rparr>)))
         else (Inr (), (h, v\<lparr>vsize := new_size\<rparr>)))
      else
        (let (array, h1) = ArrayPtr_new T new_size h
         in case DataOverwrite T (begin_it v) (end_it v) (array, 0) h1 of
              (Inl e, h2) \<Rightarrow> (Inl e, (ArrayPtr_delete array h2, v))
            | (Inr _, h2) \<Rightarrow>
               (case generate_default T array (vsize v) (new_size - vsize v) h2 of
                  (Inl e, h3) \<Rightarrow> (Inl e, (ArrayPtr_delete array h3, v))
                | (Inr _, h3) \<Rightarrow>
                   (Inr (), (ArrayPtr_delete (vptr v) h3,
                      v\<lparr>vptr := array, vcapacity := new_size, vsize := new_size\<rparr>)))))"

definition Reserve :: "'a elem_type \<Rightarrow> nat \<Rightarrow> 'a vstate \<Rightarrow> (unit, 'a vstate) outcome" where
  "Reserve T new_capacity s =
     (let h = fst s; v = snd s in
      if vcapacity v \<ge> new_capacity then (Inr (), (h, v))
      else
        (let (array, h1) = ArrayPtr_new T new_capacity h
         in case DataOverwrite T (begin_it v) (end_it v) (array, 0) h1 of
              (Inl e, h2) \<Rightarrow> (Inl e, (ArrayPtr_delete array h2, v))
            | (Inr _, h2) \<Rightarrow>
               (Inr (), (ArrayPtr_delete (vptr v) h2,
                  v\<lparr>vptr := array, vcapacity := new_capacity\<rparr>))))"

subsection \<open>Operations on two container objects\<close>

text \<open>\<open>swap\<close> and move assignment take a second container by reference, which may be
  the object itself; container objects therefore live in a store, named by reference.\<close>

type_synonym vref = nat

record 'a world =
  heap_of :: "'a heap"
  objs :: "vref \<Rightarrow> SimpleVector"

definition swap :: "vref \<Rightarrow> vref \<Rightarrow> 'a world \<Rightarrow> (unit, 'a world) outcome" where
  "swap this other w =
     (let a = objs w this; b = objs w other;
          w1 = w\<lparr>objs := (objs w)(this := a\<lparr>vptr := vptr b\<rparr>)\<rparr>;
          w2 = w1\<lparr>objs := (objs w1)(other := (objs w1 other)\<lparr>vptr := vptr a\<rparr>)\<rparr>;
          sa = vsize (objs w2 this); sb = vsize (objs w2 other);
          w3 = w2\<lparr>objs := (objs w2)(this := (objs w2 this)\<lparr>vsize := sb\<rparr>)\<rparr>;
          w4 = w3\<lparr>objs := (objs w3)(other := (objs w3 other)\<lparr>vsize := sa\<rparr>)\<rparr>;
          ca = vcapacity (objs w4 this); cb = vcapacity (objs w4 other);
          w5 = w4\<lparr>objs := (objs w4)(this := (objs w4 this)\<lparr>vcapacity := cb\<rparr>)\<rparr>;
          w6 = w5\<lparr>objs := (objs w5)(other := (objs w5 other)\<lparr>vcapacity := ca\<rparr>)\<rparr>
      in (Inr (), w6))"

text \<open>\<open>operator=(SimpleVector&& rhs) noexcept\<close>. Modelled from the spec: the move
  assignment of \<open>ArrayPtr\<close> (array_ptr.h) releases the target's block, takes the source's
  and leaves the source null.\<close>

definition move_assign_vector :: "vref \<Rightarrow> vref \<Rightarrow> 'a world \<Rightarrow> (unit, 'a world) outcome" where
  "move_assign_vector this rhs w =
     (if this \<noteq> rhs then
        (let a = objs w this; b = objs w rhs;
             h1 = ArrayPtr_delete (vptr a) (heap_of w);
             a1 = a\<lparr>vptr := vptr b, vsize := vsize b, vcapacity := vcapacity b\<rparr>;
             b1 = b\<lparr>vptr := 0, vsize := 0, vcapacity := 0\<rparr>
         in (Inr (), w\<lparr>heap_of := h1, objs := (objs w)(this := a1, rhs := b1)\<rparr>))
      else (Inr (), w))"

section \<open>Notions used in the statements\<close>

text \<open>An element type has value semantics when an assignment that returns leaves the
  destination equal to the source.\<close>

definition value_semantics :: "'a elem_type \<Rightarrow> bool" where
  "value_semantics T \<longleftrightarrow>
     (\<forall>d s d'. copy_assign T d s = Copied d' \<longrightarrow> d' = s)
     \<and> (\<forall>d s d' s'. move_assign T d s = Moved d' s' \<longrightarrow> d' = s)"

text \<open>A move assignment declared \<open>noexcept\<close> does not throw.\<close>

definition nothrow_sound :: "'a elem_type \<Rightarrow> bool" where
  "nothrow_sound T \<longleftrightarrow>
     (is_nothrow_move_assignable T \<longrightarrow> (\<forall>d s d' s'. move_assign T d s \<noteq> MoveThrew d' s'))"

text \<open>An assignment that throws leaves its destination as it was.\<close>

definition throw_keeps_destination :: "'a elem_type \<Rightarrow> bool" where
  "throw_keeps_destination T \<longleftrightarrow>
     (\<forall>d s d'. copy_assign T d s = CopyThrew d' \<longrightarrow> d' = d)
     \<and> (\<forall>d s d' s'. move_assign T d s = MoveThrew d' s' \<longrightarrow> d' = d)"

text \<open>The value an argument refers to, in a given heap.\<close>

fun arg_read :: "'a heap \<Rightarrow> 'a arg \<Rightarrow> 'a" where
  "arg_read h (Lvalue x) = x"
| "arg_read h (Rvalue x) = x"
| "arg_read h (LvalueAt b k) = load h b k"

text \<open>The argument is no element of the container's buffer (nor of the block that the
  next allocation will create).\<close>

fun arg_outside :: "'a heap \<Rightarrow> SimpleVector \<Rightarrow> 'a arg \<Rightarrow> bool" where
  "arg_outside h v (LvalueAt b k) \<longleftrightarrow> b \<noteq> vptr v \<and> b \<noteq> brk h"
| "arg_outside h v (Lvalue x) \<longleftrightarrow> True"
| "arg_outside h v (Rvalue x) \<longleftrightarrow> True"

text \<open>No assignment of the element type throws.\<close>

definition never_throws :: "'a elem_type \<Rightarrow> bool" where
  "never_throws T \<longleftrightarrow>
     (\<forall>d s. \<exists>d'. copy_assign T d s = Copied d')
     \<and> (\<forall>d s. \<exists>d' s'. move_assign T d s = Moved d' s')"

text \<open>The position is \<open>begin() + k\<close> for some \<open>0 \<le> k \<le> n\<close>.\<close>

definition position_within :: "SimpleVector \<Rightarrow> nat \<Rightarrow> pointer \<Rightarrow> bool" where
  "position_within v n pos \<longleftrightarrow> (\<exists>k\<le>n. address pos = address (begin_it v) + int k)"

text \<open>Whether \<open>dst = std::forward<U>(item)\<close> throws.\<close>

fun assign_throws :: "'a elem_type \<Rightarrow> 'a heap \<Rightarrow> 'a arg \<Rightarrow> 'a \<Rightarrow> bool" where
  "assign_throws T h (Lvalue x) d = (case copy_assign T d x of Copied _ \<Rightarrow> False | CopyThrew _ \<Rightarrow> True)"
| "assign_throws T h (Rvalue x) d = (case move_assign T d x of Moved _ _ \<Rightarrow> False | MoveThrew _ _ \<Rightarrow> True)"
| "assign_throws T h (LvalueAt b k) d =
     (case copy_assign T d (load h b k) of Copied _ \<Rightarrow> False | CopyThrew _ \<Rightarrow> True)"

text \<open>The container invariant of the spec: the buffer has \<open>capacity\<close> slots,
  \<open>size \<le> capacity\<close>; the buffer was allocated by this heap and nothing lives at the
  null address.\<close>

definition wf_state :: "'a vstate \<Rightarrow> bool" where
  "wf_state s \<longleftrightarrow>
     vptr (snd s) < brk (fst s) \<and> blocks (fst s) 0 = None
     \<and> length (buf (fst s) (vptr (snd s))) = vcapacity (snd s)
     \<and> vsize (snd s) \<le> vcapacity (snd s)"

text \<open>Two heaps with the same allocated blocks, of the same lengths.\<close>

definition same_shape :: "'a heap \<Rightarrow> 'a heap \<Rightarrow> bool" where
  "same_shape h h' \<longleftrightarrow>
     brk h' = brk h \<and> (\<forall>q. length (buf h' q) = length (buf h q))
     \<and> (\<forall>q. (blocks h' q = None) = (blocks h q = None))"

text \<open>A sequence of \<open>PushBack\<close> calls, stopped by the first exception.\<close>

fun push_all :: "'a elem_type \<Rightarrow> 'a arg list \<Rightarrow> 'a vstate \<Rightarrow> (unit, 'a vstate) outcome" where
  "push_all T [] s = (Inr (), s)"
| "push_all T (x # xs) s =
     (case PushBack T x s of
        (Inl e, s') \<Rightarrow> (Inl e, s')
      | (Inr _, s') \<Rightarrow> push_all T xs s')"

text \<open>What a run of \<open>PushBack\<close> calls from the empty container maintains: the
  capacity is a power of two, the smallest one that holds the elements.\<close>

definition doubling_inv :: "SimpleVector \<Rightarrow> bool" where
  "doubling_inv v \<longleftrightarrow>
     (vsize v = 0 \<and> vcapacity v = 0)
     \<or> (\<exists>n. vcapacity v = 2 ^ n \<and> vsize v \<le> vcapacity v \<and> vcapacity v < 2 * vsize v)"

subsection \<open>Element types and states for the examples\<close>

text \<open>\<open>MoveableThrowable\<close> of main.cpp: a number and a flag; copying is deleted, and
  move assignment throws when the source's flag is set, else takes the number and leaves
  \<open>-1\<close> behind.\<close>

definition MoveableThrowable :: "(int \<times> bool) elem_type" where
  "MoveableThrowable =
     \<lparr>is_copy_assignable = False, is_nothrow_move_assignable = False,
      copy_assign = (\<lambda>d s. CopyThrew d),
      move_assign = (\<lambda>d s. if snd s then MoveThrew d s else Moved (fst s, snd d) (- 1, snd s)),
      default_value = (- 1, False)\<rparr>"

text \<open>\<open>int\<close>\<close>

definition int_type :: "int elem_type" where
  "int_type =
     \<lparr>is_copy_assignable = True, is_nothrow_move_assignable = True,
      copy_assign = (\<lambda>d s. Copied s), move_assign = (\<lambda>d s. Moved s s), default_value = 0\<rparr>"

definition heap_with :: "'a list \<Rightarrow> 'a heap" where
  "heap_with xs = \<lparr>blocks = (\<lambda>_. None)(1 \<mapsto> xs), brk = 2\<rparr>"

definition empty_heap :: "'a heap" where
  "empty_heap = \<lparr>blocks = (\<lambda>_. None), brk = 1\<rparr>"

definition vector_at :: "nat \<Rightarrow> nat \<Rightarrow> SimpleVector" where
  "vector_at n c = \<lparr>vptr = 1, vsize = n, vcapacity = c\<rparr>"

text \<open>A copyable element type whose copy and move assignments throw when the source's
  flag is set, before they change anything.\<close>

definition CopyThrowable :: "(int \<times> bool) elem_type" where
  "CopyThrowable =
     \<lparr>is_copy_assignable = True, is_nothrow_move_assignable = False,
      copy_assign = (\<lambda>d s. if snd s then CopyThrew d else Copied s),
      move_assign = (\<lambda>d s. if snd s then MoveThrew d s else Moved s (- 1, False)),
      default_value = (- 1, False)\<rparr>"

section \<open>The heap and the standard algorithms\<close>

lemma buf_store: "buf (store h p i x) q = (if q = p then (buf h p)[i := x] else buf h q)"
  by (auto simp: buf_def store_def split: option.splits)

lemma length_buf_store [simp]: "length (buf (store h p i x) q) = length (buf h q)"
  by (simp add: buf_store)

lemma brk_store [simp]: "brk (store h p i x) = brk h"
  by (simp add: store_def split: option.splits)

lemma blocks_store_None [simp]: "(blocks (store h p i x) q = None) = (blocks h q = None)"
  by (simp add: store_def split: option.splits)

lemma blocks_store_other: "q \<noteq> p \<Longrightarrow> blocks (store h p i x) q = blocks h q"
  by (simp add: store_def split: option.splits)

lemma load_store:
  "load (store h p i x) q k =
     (if q = p \<and> k = i \<and> i < length (buf h p) then x else load h q k)"
  by (auto simp: load_def buf_store nth_list_update list_update_beyond not_less)

lemma store_same: "store h p i (load h p i) = h"
  by (auto simp: store_def load_def buf_def fun_upd_idem split: option.splits)

lemma same_shape_refl [simp]: "same_shape h h"
  by (simp add: same_shape_def)

lemma same_shape_trans: "same_shape h h1 \<Longrightarrow> same_shape h1 h2 \<Longrightarrow> same_shape h h2"
  by (simp add: same_shape_def)

lemma same_shape_store [simp]: "same_shape h (store h p i x)"
  by (simp add: same_shape_def)

lemma same_shape_store_left: "same_shape (store h p i x) h' \<Longrightarrow> same_shape h h'"
  by (simp add: same_shape_def)

lemma assign_item_shape: "same_shape h (snd (assign_item T item p i h))"
  by (cases item) (simp_all split: copied.splits moved.splits)

lemma copy_range_shape: "same_shape h (snd (copy_range T sp si dp di n h))"
proof (induction n arbitrary: h si di)
  case 0
  show ?case by simp
next
  case (Suc n)
  show ?case
  proof (cases "copy_assign T (load h dp di) (load h sp si)")
    case (Copied d)
    with Suc.IH [of "store h dp di d" "Suc si" "Suc di"] show ?thesis
      by (simp add: same_shape_store_left)
  next
    case (CopyThrew d)
    then show ?thesis by simp
  qed
qed

lemma move_range_shape: "same_shape h (snd (move_range T sp si dp di n h))"
proof (induction n arbitrary: h si di)
  case 0
  show ?case by simp
next
  case (Suc n)
  show ?case
  proof (cases "move_assign T (load h dp di) (load h sp si)")
    case (Moved d s)
    with Suc.IH [of "store (store h dp di d) sp si s" "Suc si" "Suc di"] show ?thesis
      by (simp add: same_shape_def)
  next
    case (MoveThrew d s)
    then show ?thesis by (simp add: same_shape_def)
  qed
qed

lemma copy_backward_shape: "same_shape h (snd (copy_backward T sp fi dp dl n h))"
proof (induction n arbitrary: h dl)
  case 0
  show ?case by simp
next
  case (Suc n)
  show ?case
  proof (cases "copy_assign T (load h dp (dl - 1)) (load h sp (fi + n))")
    case (Copied d)
    with Suc.IH [of "store h dp (dl - 1) d" "dl - 1"] show ?thesis
      by (simp add: same_shape_def)
  next
    case (CopyThrew d)
    then show ?thesis by simp
  qed
qed

lemma move_backward_shape: "same_shape h (snd (move_backward T sp fi dp dl n h))"
proof (induction n arbitrary: h dl)
  case 0
  show ?case by simp
next
  case (Suc n)
  show ?case
  proof (cases "move_assign T (load h dp (dl - 1)) (load h sp (fi + n))")
    case (Moved d s)
    with Suc.IH [of "store (store h dp (dl - 1) d) sp (fi + n) s" "dl - 1"] show ?thesis
      by (simp add: same_shape_def)
  next
    case (MoveThrew d s)
    then show ?thesis by (simp add: same_shape_def)
  qed
qed

lemma generate_default_shape: "same_shape h (snd (generate_default T p i n h))"
proof (induction n arbitrary: h i)
  case 0
  show ?case by simp
next
  case (Suc n)
  show ?case
  proof (cases "move_assign T (load h p i) (default_value T)")
    case (Moved d s)
    with Suc.IH [of "store h p i d" "Suc i"] show ?thesis
      by (simp add: same_shape_def)
  next
    case (MoveThrew d s)
    then show ?thesis by simp
  qed
qed

lemma assign_item_frame: "\<not> (q = p \<and> k = i) \<Longrightarrow> load (snd (assign_item T item p i h)) q k = load h q k"
  by (cases item) (auto simp: load_store split: copied.splits moved.splits)

lemma assign_item_blocks: "q \<noteq> p \<Longrightarrow> blocks (snd (assign_item T item p i h)) q = blocks h q"
  by (cases item) (auto simp: blocks_store_other split: copied.splits moved.splits)

lemma copy_range_blocks: "q \<noteq> dp \<Longrightarrow> blocks (snd (copy_range T sp si dp di n h)) q = blocks h q"
  by (induction n arbitrary: h si di) (auto simp: blocks_store_other split: copied.splits)

lemma move_range_blocks:
  "q \<noteq> dp \<Longrightarrow> q \<noteq> sp \<Longrightarrow> blocks (snd (move_range T sp si dp di n h)) q = blocks h q"
  by (induction n arbitrary: h si di) (auto simp: blocks_store_other split: moved.splits)

lemma generate_default_blocks: "q \<noteq> p \<Longrightarrow> blocks (snd (generate_default T p i n h)) q = blocks h q"
  by (induction n arbitrary: h i) (auto simp: blocks_store_other split: moved.splits)

lemma copy_range_frame:
  "\<not> (q = dp \<and> di \<le> k \<and> k < di + n) \<Longrightarrow>
   load (snd (copy_range T sp si dp di n h)) q k = load h q k"
proof (induction n arbitrary: h si di)
  case 0
  show ?case by simp
next
  case (Suc n)
  show ?case
  proof (cases "copy_assign T (load h dp di) (load h sp si)")
    case (Copied d)
    have "load (snd (copy_range T sp (Suc si) dp (Suc di) n (store h dp di d))) q k
          = load (store h dp di d) q k"
      using Suc.prems by (intro Suc.IH) auto
    with Copied Suc.prems show ?thesis by (auto simp: load_store)
  next
    case (CopyThrew d)
    with Suc.prems show ?thesis by (auto simp: load_store)
  qed
qed

lemma move_range_frame:
  "\<not> (q = dp \<and> di \<le> k \<and> k < di + n) \<Longrightarrow> \<not> (q = sp \<and> si \<le> k \<and> k < si + n) \<Longrightarrow>
   load (snd (move_range T sp si dp di n h)) q k = load h q k"
proof (induction n arbitrary: h si di)
  case 0
  show ?case by simp
next
  case (Suc n)
  show ?case
  proof (cases "move_assign T (load h dp di) (load h sp si)")
    case (Moved d s)
    have "load (snd (move_range T sp (Suc si) dp (Suc di) n (store (store h dp di d) sp si s))) q k
          = load (store (store h dp di d) sp si s) q k"
      using Suc.prems by (intro Suc.IH) auto
    with Moved Suc.prems show ?thesis by (auto simp: load_store)
  next
    case (MoveThrew d s)
    with Suc.prems show ?thesis by (auto simp: load_store)
  qed
qed

lemma copy_backward_frame:
  "\<not> (q = dp \<and> dl - n \<le> k \<and> k < dl) \<Longrightarrow> n \<le> dl \<Longrightarrow>
   load (snd (copy_backward T sp fi dp dl n h)) q k = load h q k"
proof (induction n arbitrary: h dl)
  case 0
  show ?case by simp
next
  case (Suc n)
  show ?case
  proof (cases "copy_assign T (load h dp (dl - 1)) (load h sp (fi + n))")
    case (Copied d)
    have "load (snd (copy_backward T sp fi dp (dl - 1) n (store h dp (dl - 1) d))) q k
          = load (store h dp (dl - 1) d) q k"
      using Suc.prems by (intro Suc.IH) auto
    with Copied Suc.prems show ?thesis by (auto simp: load_store)
  next
    case (CopyThrew d)
    with Suc.prems show ?thesis by (auto simp: load_store)
  qed
qed

lemma move_backward_frame:
  "\<not> (q = dp \<and> dl - n \<le> k \<and> k < dl) \<Longrightarrow> \<not> (q = sp \<and> fi \<le> k \<and> k < fi + n) \<Longrightarrow> n \<le> dl \<Longrightarrow>
   load (snd (move_backward T sp fi dp dl n h)) q k = load h q k"
proof (induction n arbitrary: h dl)
  case 0
  show ?case by simp
next
  case (Suc n)
  show ?case
  proof (cases "move_assign T (load h dp (dl - 1)) (load h sp (fi + n))")
    case (Moved d s)
    have "load (snd (move_backward T sp fi dp (dl - 1) n (store (store h dp (dl - 1) d) sp (fi + n) s))) q k
          = load (store (store h dp (dl - 1) d) sp (fi + n) s) q k"
      using Suc.prems by (intro Suc.IH) auto
    with Moved Suc.prems show ?thesis by (auto simp: load_store)
  next
    case (MoveThrew d s)
    with Suc.prems show ?thesis by (auto simp: load_store)
  qed
qed

lemma value_semantics_move:
  "value_semantics T \<Longrightarrow> move_assign T d s = Moved d' s' \<Longrightarrow> d' = s"
  unfolding value_semantics_def by blast

lemma value_semantics_copy:
  "value_semantics T \<Longrightarrow> copy_assign T d s = Copied d' \<Longrightarrow> d' = s"
  unfolding value_semantics_def by blast

lemma move_range_cells:
  assumes "move_range T sp si dp di n h = (Inr (), h')" and "value_semantics T"
    and "sp \<noteq> dp \<or> di < si" and "di + n \<le> length (buf h dp)"
    and "di \<le> k" and "k < di + n"
  shows "load h' dp k = load h sp (si + (k - di))"
  using assms
proof (induction n arbitrary: h si di)
  case 0
  then show ?case by simp
next
  case (Suc n)
  from Suc.prems(1) obtain d s
    where m: "move_assign T (load h dp di) (load h sp si) = Moved d s"
      and rec: "move_range T sp (Suc si) dp (Suc di) n (store (store h dp di d) sp si s) = (Inr (), h')"
    by (auto split: moved.splits)
  from m Suc.prems(2) have d: "d = load h sp si"
    by (auto dest: value_semantics_move value_semantics_copy)
  let ?h1 = "store (store h dp di d) sp si s"
  show ?case
  proof (cases "k = di")
    case True
    have "load (snd (move_range T sp (Suc si) dp (Suc di) n ?h1)) dp k = load ?h1 dp k"
      using True Suc.prems(3) by (intro move_range_frame) auto
    with rec have "load h' dp k = load ?h1 dp k"
      by simp
    also have "\<dots> = d"
      using True Suc.prems(3,4) by (auto simp: load_store)
    finally show ?thesis
      using d True by simp
  next
    case False
    have "load h' dp k = load ?h1 sp (Suc si + (k - Suc di))"
      using False Suc.prems by (intro Suc.IH [OF rec]) auto
    also have "Suc si + (k - Suc di) = si + (k - di)"
      using False Suc.prems(5) by arith
    also have "load ?h1 sp (si + (k - di)) = load h sp (si + (k - di))"
      using False Suc.prems(3,5) by (auto simp: load_store)
    finally show ?thesis .
  qed
qed

lemma copy_range_cells:
  assumes "copy_range T sp si dp di n h = (Inr (), h')" and "value_semantics T"
    and "sp \<noteq> dp \<or> di < si" and "di + n \<le> length (buf h dp)"
    and "di \<le> k" and "k < di + n"
  shows "load h' dp k = load h sp (si + (k - di))"
  using assms
proof (induction n arbitrary: h si di)
  case 0
  then show ?case by simp
next
  case (Suc n)
  from Suc.prems(1) obtain d
    where m: "copy_assign T (load h dp di) (load h sp si) = Copied d"
      and rec: "copy_range T sp (Suc si) dp (Suc di) n (store h dp di d) = (Inr (), h')"
    by (auto split: copied.splits)
  from m Suc.prems(2) have d: "d = load h sp si"
    by (auto dest: value_semantics_move value_semantics_copy)
  let ?h1 = "store h dp di d"
  show ?case
  proof (cases "k = di")
    case True
    have "load (snd (copy_range T sp (Suc si) dp (Suc di) n ?h1)) dp k = load ?h1 dp k"
      using True by (intro copy_range_frame) auto
    with rec have "load h' dp k = load ?h1 dp k"
      by simp
    also have "\<dots> = d"
      using True Suc.prems(3,4) by (auto simp: load_store)
    finally show ?thesis
      using d True by simp
  next
    case False
    have "load h' dp k = load ?h1 sp (Suc si + (k - Suc di))"
      using False Suc.prems by (intro Suc.IH [OF rec]) auto
    also have "Suc si + (k - Suc di) = si + (k - di)"
      using False Suc.prems(5) by arith
    also have "load ?h1 sp (si + (k - di)) = load h sp (si + (k - di))"
      using False Suc.prems(3,5) by (auto simp: load_store)
    finally show ?thesis .
  qed
qed

lemma move_backward_cells:
  assumes "move_backward T sp fi dp dl n h = (Inr (), h')" and "value_semantics T"
    and "sp \<noteq> dp \<or> fi + n < dl" and "n \<le> dl" and "dl \<le> length (buf h dp)"
    and "dl - n \<le> k" and "k < dl"
  shows "load h' dp k = load h sp (fi + (k - (dl - n)))"
  using assms
proof (induction n arbitrary: h dl)
  case 0
  then show ?case by simp
next
  case (Suc n)
  from Suc.prems(1) obtain d s
    where m: "move_assign T (load h dp (dl - 1)) (load h sp (fi + n)) = Moved d s"
      and rec: "move_backward T sp fi dp (dl - 1) n (store (store h dp (dl - 1) d) sp (fi + n) s) = (Inr (), h')"
    by (auto split: moved.splits)
  from m Suc.prems(2) have d: "d = load h sp (fi + n)"
    by (auto dest: value_semantics_move value_semantics_copy)
  let ?h1 = "store (store h dp (dl - 1) d) sp (fi + n) s"
  show ?case
  proof (cases "k = dl - 1")
    case True
    have "load (snd (move_backward T sp fi dp (dl - 1) n ?h1)) dp k = load ?h1 dp k"
      using True Suc.prems(3,4) by (intro move_backward_frame) auto
    with rec have "load h' dp k = load ?h1 dp k"
      by simp
    also have "\<dots> = d"
      using True Suc.prems(3,4,5) by (auto simp: load_store)
    finally show ?thesis
      using d True Suc.prems(4) by simp
  next
    case False
    have "load h' dp k = load ?h1 sp (fi + (k - (dl - 1 - n)))"
      using False Suc.prems by (intro Suc.IH [OF rec]) auto
    also have "dl - 1 - n = dl - Suc n"
      by arith
    also have "load ?h1 sp (fi + (k - (dl - Suc n))) = load h sp (fi + (k - (dl - Suc n)))"
      using False Suc.prems(3,4,6,7) by (auto simp: load_store)
    finally show ?thesis .
  qed
qed

lemma copy_backward_cells:
  assumes "copy_backward T sp fi dp dl n h = (Inr (), h')" and "value_semantics T"
    and "sp \<noteq> dp \<or> fi + n < dl" and "n \<le> dl" and "dl \<le> length (buf h dp)"
    and "dl - n \<le> k" and "k < dl"
  shows "load h' dp k = load h sp (fi + (k - (dl - n)))"
  using assms
proof (induction n arbitrary: h dl)
  case 0
  then show ?case by simp
next
  case (Suc n)
  from Suc.prems(1) obtain d
    where m: "copy_assign T (load h dp (dl - 1)) (load h sp (fi + n)) = Copied d"
      and rec: "copy_backward T sp fi dp (dl - 1) n (store h dp (dl - 1) d) = (Inr (), h')"
    by (auto split: copied.splits)
  from m Suc.prems(2) have d: "d = load h sp (fi + n)"
    by (auto dest: value_semantics_move value_semantics_copy)
  let ?h1 = "store h dp (dl - 1) d"
  show ?case
  proof (cases "k = dl - 1")
    case True
    have "load (snd (copy_backward T sp fi dp (dl - 1) n ?h1)) dp k = load ?h1 dp k"
      using True Suc.prems(3,4) by (intro copy_backward_frame) auto
    with rec have "load h' dp k = load ?h1 dp k"
      by simp
    also have "\<dots> = d"
      using True Suc.prems(3,4,5) by (auto simp: load_store)
    finally show ?thesis
      using d True Suc.prems(4) by simp
  next
    case False
    have "load h' dp k = load ?h1 sp (fi + (k - (dl - 1 - n)))"
      using False Suc.prems by (intro Suc.IH [OF rec]) auto
    also have "dl - 1 - n = dl - Suc n"
      by arith
    also have "load ?h1 sp (fi + (k - (dl - Suc n))) = load h sp (fi + (k - (dl - Suc n)))"
      using False Suc.prems(3,4,6,7) by (auto simp: load_store)
    finally show ?thesis .
  qed
qed

lemma assign_item_error: "fst (assign_item T item p i h) = Inl e \<Longrightarrow> e = ElementThrow"
  by (cases item) (auto split: copied.splits moved.splits)

lemma copy_range_error: "fst (copy_range T sp si dp di n h) = Inl e \<Longrightarrow> e = ElementThrow"
  by (induction n arbitrary: h si di) (auto split: copied.splits)

lemma move_range_error: "fst (move_range T sp si dp di n h) = Inl e \<Longrightarrow> e = ElementThrow"
  by (induction n arbitrary: h si di) (auto split: moved.splits)

lemma copy_backward_error: "fst (copy_backward T sp fi dp dl n h) = Inl e \<Longrightarrow> e = ElementThrow"
  by (induction n arbitrary: h dl) (auto split: copied.splits)

lemma move_backward_error: "fst (move_backward T sp fi dp dl n h) = Inl e \<Longrightarrow> e = ElementThrow"
  by (induction n arbitrary: h dl) (auto split: moved.splits)

lemma DataOverwrite_error: "fst (DataOverwrite T a b c h) = Inl e \<Longrightarrow> e = ElementThrow"
  by (auto simp: DataOverwrite_def Let_def dest: copy_range_error move_range_error split: if_splits)

lemma InsertShift_error: "fst (InsertShift T v idx h) = Inl e \<Longrightarrow> e = ElementThrow"
  by (auto simp: InsertShift_def dest: copy_backward_error move_backward_error split: if_splits)

lemma DataOverwrite_shape: "same_shape h (snd (DataOverwrite T a b c h))"
  by (simp add: DataOverwrite_def Let_def copy_range_shape move_range_shape)

lemma InsertShift_shape: "same_shape h (snd (InsertShift T v idx h))"
  by (simp add: InsertShift_def copy_backward_shape move_backward_shape)

lemma move_range_nothrow:
  "nothrow_sound T \<Longrightarrow> is_nothrow_move_assignable T \<Longrightarrow> fst (move_range T sp si dp di n h) = Inr ()"
  by (induction n arbitrary: h si di) (auto simp: nothrow_sound_def split: moved.splits)

lemma move_backward_nothrow:
  "nothrow_sound T \<Longrightarrow> is_nothrow_move_assignable T \<Longrightarrow> fst (move_backward T sp fi dp dl n h) = Inr ()"
  by (induction n arbitrary: h dl) (auto simp: nothrow_sound_def split: moved.splits)

section \<open>Growth\<close>

lemma PushBack_fields:
  assumes "PushBack T x (h, v) = (Inr r, (h', v'))"
  shows "vsize v' = Suc (vsize v)"
    and "vcapacity v' = (if vsize v = vcapacity v then grown_capacity (vcapacity v) else vcapacity v)"
  using assms
  by (auto simp: PushBack_def UniversalPushBack_def Let_def split: if_splits prod.splits sum.splits)

lemma Insert_fields:
  assumes "Insert T pos x (h, v) = (Inr r, (h', v'))"
  shows "vsize v' = Suc (vsize v)"
    and "vcapacity v' = (if vsize v = vcapacity v then grown_capacity (vcapacity v) else vcapacity v)"
  using assms
  by (auto simp: Insert_def UniversalInsert_def Let_def split: if_splits prod.splits sum.splits)

lemma grown_capacity_max: "grown_capacity c = max 1 (2 * c)"
  by (simp add: grown_capacity_def)

lemma doubling_inv_step:
  assumes "doubling_inv v" and "PushBack T x (h, v) = (Inr r, (h', v'))"
  shows "doubling_inv v'"
proof -
  note f = PushBack_fields [OF assms(2)]
  from assms(1) consider "vsize v = 0" "vcapacity v = 0"
    | n where "vcapacity v = 2 ^ n" "vsize v \<le> vcapacity v" "vcapacity v < 2 * vsize v"
    by (auto simp: doubling_inv_def)
  then show ?thesis
  proof cases
    case 1
    then have "vcapacity v' = 2 ^ 0" "vsize v' = 1"
      using f by (simp_all add: grown_capacity_def)
    then show ?thesis
      unfolding doubling_inv_def by (intro disjI2 exI [of _ 0]) simp
  next
    case 2
    show ?thesis
    proof (cases "vsize v = vcapacity v")
      case True
      then have "vcapacity v' = 2 ^ Suc n" "vsize v' = Suc (2 ^ n)"
        using f 2 by (simp_all add: grown_capacity_def)
      then show ?thesis
        unfolding doubling_inv_def by (intro disjI2 exI [of _ "Suc n"]) simp
    next
      case False
      then have "vcapacity v' = 2 ^ n" "vsize v' = Suc (vsize v)"
        using f 2 by simp_all
      then show ?thesis
        unfolding doubling_inv_def using 2 False by (intro disjI2 exI [of _ n]) simp
    qed
  qed
qed

lemma push_all_inv:
  "push_all T items (h, v) = (Inr (), (h', v')) \<Longrightarrow> doubling_inv v \<Longrightarrow>
   doubling_inv v' \<and> vsize v' = vsize v + length items"
proof (induction items arbitrary: h v)
  case Nil
  then show ?case by simp
next
  case (Cons x xs)
  from Cons.prems(1) obtain h1 v1 r
    where p: "PushBack T x (h, v) = (Inr r, (h1, v1))"
      and rest: "push_all T xs (h1, v1) = (Inr (), (h', v'))"
    by (auto split: prod.splits sum.splits)
  have "doubling_inv v1"
    using Cons.prems(2) p by (rule doubling_inv_step)
  from Cons.IH [OF rest this] PushBack_fields(1) [OF p] show ?case
    by simp
qed

text \<open>
  C3. A \<open>PushBack\<close> or \<open>Insert\<close> that is called with \<open>size == capacity\<close> and returns
  leaves the capacity at \<open>max(1, 2 * old capacity)\<close>. After \<open>k \<ge> 1\<close> appends to a
  default constructed container the capacity is a power of two, at least \<open>k\<close> (and less
  than \<open>2k\<close>), and the size is \<open>k\<close>.
\<close>

theorem growth_doubles_capacity:
  "(vsize v = vcapacity v \<longrightarrow> PushBack T x (h, v) = (Inr r, (h1, v1)) \<longrightarrow>
      GetCapacity v1 = max 1 (2 * GetCapacity v))
   \<and> (vsize v = vcapacity v \<longrightarrow> Insert T pos x (h, v) = (Inr it, (h2, v2)) \<longrightarrow>
      GetCapacity v2 = max 1 (2 * GetCapacity v))
   \<and> (items \<noteq> [] \<longrightarrow> push_all T items (h0, SimpleVector_default) = (Inr (), (hk, vk)) \<longrightarrow>
      (\<exists>n. GetCapacity vk = 2 ^ n) \<and> length items \<le> GetCapacity vk
      \<and> GetCapacity vk < 2 * length items \<and> GetSize vk = length items)"
proof (intro conjI impI)
  assume "vsize v = vcapacity v" "PushBack T x (h, v) = (Inr r, (h1, v1))"
  then show "GetCapacity v1 = max 1 (2 * GetCapacity v)"
    using PushBack_fields(2) [of T x h v r h1 v1] by (simp add: GetCapacity_def grown_capacity_max)
next
  assume "vsize v = vcapacity v" "Insert T pos x (h, v) = (Inr it, (h2, v2))"
  then show "GetCapacity v2 = max 1 (2 * GetCapacity v)"
    using Insert_fields(2) [of T pos x h v it h2 v2] by (simp add: GetCapacity_def grown_capacity_max)
next
  assume ne: "items \<noteq> []" and run: "push_all T items (h0, SimpleVector_default) = (Inr (), (hk, vk))"
  have "doubling_inv SimpleVector_default"
    by (simp add: doubling_inv_def SimpleVector_default_def)
  from push_all_inv [OF run this]
  have inv: "doubling_inv vk" and sz: "vsize vk = length items"
    by (simp_all add: SimpleVector_default_def)
  from ne sz have "vsize vk \<noteq> 0" by simp
  with inv obtain n where n: "vcapacity vk = 2 ^ n" "vsize vk \<le> vcapacity vk" "vcapacity vk < 2 * vsize vk"
    by (auto simp: doubling_inv_def)
  show "\<exists>n. GetCapacity vk = 2 ^ n" using n(1) by (auto simp: GetCapacity_def)
  show "length items \<le> GetCapacity vk" using n(2) sz by (simp add: GetCapacity_def)
  show "GetCapacity vk < 2 * length items" using n(3) sz by (simp add: GetCapacity_def)
  show "GetSize vk = length items" using sz by (simp add: GetSize_def)
qed

theorem growth_doubles_capacity_witness:
  "vsize SimpleVector_default = vcapacity SimpleVector_default
   \<and> fst (PushBack int_type (Lvalue 7) (empty_heap, SimpleVector_default)) = Inr ()
   \<and> GetCapacity (snd (snd (PushBack int_type (Lvalue 7) (empty_heap, SimpleVector_default)))) = 1
   \<and> fst (Insert int_type (0, 0) (Lvalue 7) (empty_heap, SimpleVector_default)) = Inr (1, 0)
   \<and> GetCapacity (snd (snd (Insert int_type (0, 0) (Lvalue 7) (empty_heap, SimpleVector_default)))) = 1
   \<and> [Lvalue 10, Lvalue 20, Lvalue (30::int)] \<noteq> []
   \<and> fst (push_all int_type [Lvalue 10, Lvalue 20, Lvalue 30] (empty_heap, SimpleVector_default)) = Inr ()
   \<and> (\<exists>n. GetCapacity (snd (snd (push_all int_type [Lvalue 10, Lvalue 20, Lvalue 30]
          (empty_heap, SimpleVector_default)))) = 2 ^ n)
   \<and> 3 \<le> GetCapacity (snd (snd (push_all int_type [Lvalue 10, Lvalue 20, Lvalue 30]
          (empty_heap, SimpleVector_default))))"
proof -
  let ?s0 = "(empty_heap :: int heap, SimpleVector_default)"
  let ?p = "PushBack int_type (Lvalue 7) ?s0"
  let ?i = "Insert int_type (0, 0) (Lvalue 7) ?s0"
  let ?a = "push_all int_type [Lvalue 10, Lvalue 20, Lvalue 30] ?s0"
  have eq: "vsize SimpleVector_default = vcapacity SimpleVector_default"
    by (simp add: SimpleVector_default_def)
  have p: "fst ?p = Inr ()" by code_simp
  have i: "fst ?i = Inr (1, 0)" by code_simp
  have a: "fst ?a = Inr ()" by code_simp
  have p': "?p = (Inr (), (fst (snd ?p), snd (snd ?p)))"
    using p by (simp add: prod_eq_iff)
  have i': "?i = (Inr (1, 0), (fst (snd ?i), snd (snd ?i)))"
    using i by (simp add: prod_eq_iff)
  have a': "?a = (Inr (), (fst (snd ?a), snd (snd ?a)))"
    using a by (simp add: prod_eq_iff)
  have c0: "GetCapacity SimpleVector_default = 0"
    by (simp add: GetCapacity_def SimpleVector_default_def)
  note t = growth_doubles_capacity [where v = SimpleVector_default and T = int_type
      and x = "Lvalue 7" and h = empty_heap and pos = "(0, 0)"
      and items = "[Lvalue 10, Lvalue 20, Lvalue 30]" and ?h0.0 = empty_heap]
  from t eq p' i' a' c0 p i a show ?thesis
    by (metis length_Cons list.distinct(1) list.size(3) max.absorb1 mult_0_right
        numeral_3_eq_3 zero_le_one)
qed

section \<open>Move assignment\<close>

text \<open>
  C10. Move-assigning a container to itself does nothing: the call returns and the whole
  world (the object's size, capacity and buffer pointer, and the heap with the buffer's
  block and its elements) is as before, so the buffer is not released.
\<close>

theorem self_move_assign_noop:
  "move_assign_vector this this w = (Inr (), w)
   \<and> GetSize (objs (snd (move_assign_vector this this w)) this) = GetSize (objs w this)
   \<and> GetCapacity (objs (snd (move_assign_vector this this w)) this) = GetCapacity (objs w this)
   \<and> elems (heap_of (snd (move_assign_vector this this w)))
         (objs (snd (move_assign_vector this this w)) this)
       = elems (heap_of w) (objs w this)
   \<and> blocks (heap_of (snd (move_assign_vector this this w))) (vptr (objs w this))
       = blocks (heap_of w) (vptr (objs w this))"
  by (simp add: move_assign_vector_def)

text \<open>Between two different objects the assignment does release the target's buffer and
  empties the source.\<close>

lemma move_assign_other:
  assumes "this \<noteq> rhs" and "move_assign_vector this rhs w = (r, w')"
  shows "objs w' this = objs w rhs" and "objs w' rhs = SimpleVector_default"
    and "blocks (heap_of w') (vptr (objs w this)) = None"
  using assms
  by (auto simp: move_assign_vector_def Let_def SimpleVector_default_def ArrayPtr_delete_def)

section \<open>Failure of a growth-free PushBack\<close>

lemma assign_item_store: "\<exists>d. snd (assign_item T item p i h) = store h p i d"
  by (cases item) (auto split: copied.splits moved.splits)

lemma assign_item_throws:
  "(fst (assign_item T item p i h) = Inr ()) = (\<not> assign_throws T h item (load h p i))"
  by (cases item) (auto split: copied.splits moved.splits)

lemma throw_keeps_copy:
  "throw_keeps_destination T \<Longrightarrow> copy_assign T d s = CopyThrew d' \<Longrightarrow> d' = d"
  unfolding throw_keeps_destination_def by blast

lemma throw_keeps_move:
  "throw_keeps_destination T \<Longrightarrow> move_assign T d s = MoveThrew d' s' \<Longrightarrow> d' = d"
  unfolding throw_keeps_destination_def by blast

lemma assign_item_keeps:
  assumes "throw_keeps_destination T" and "fst (assign_item T item p i h) = Inl e"
  shows "snd (assign_item T item p i h) = h"
proof (cases item)
  case (Lvalue x)
  with assms(2) obtain d where "copy_assign T (load h p i) x = CopyThrew d"
    by (auto split: copied.splits)
  moreover from this have "d = load h p i"
    using assms(1) by (rule throw_keeps_copy [rotated])
  ultimately show ?thesis
    using Lvalue by (simp add: store_same)
next
  case (Rvalue x)
  with assms(2) obtain d s where "move_assign T (load h p i) x = MoveThrew d s"
    by (auto split: moved.splits)
  moreover from this have "d = load h p i"
    using assms(1) by (rule throw_keeps_move [rotated])
  ultimately show ?thesis
    using Rvalue by (simp add: store_same)
next
  case (LvalueAt b k)
  with assms(2) obtain d where "copy_assign T (load h p i) (load h b k) = CopyThrew d"
    by (auto split: copied.splits)
  moreover from this have "d = load h p i"
    using assms(1) by (rule throw_keeps_copy [rotated])
  ultimately show ?thesis
    using LvalueAt by (simp add: store_same)
qed

lemma take_buf_store: "take i (buf (store h p i x) p) = take i (buf h p)"
  by (simp add: buf_store)

lemma PushBack_in_place:
  "vsize v < vcapacity v \<Longrightarrow>
   PushBack T item (h, v) =
     (case assign_item T item (vptr v) (vsize v) h of
        (Inl e, h1) \<Rightarrow> (Inl e, (h1, v))
      | (Inr _, h1) \<Rightarrow> (Inr (), (h1, v\<lparr>vsize := Suc (vsize v)\<rparr>)))"
  by (simp add: PushBack_def UniversalPushBack_def)

text \<open>
  C7. When a growth-free \<open>PushBack\<close> (\<open>size < capacity\<close>) fails, the container object is
  as before (size, capacity and buffer pointer), the live elements \<open>[0, size)\<close> are
  unchanged, no block is allocated or released, and the only slot of the heap that may
  differ is slot \<open>size\<close> of the buffer, which holds what the failed assignment left there
  (nothing new when a throwing assignment leaves its destination alone).
\<close>

theorem growth_free_PushBack_failure:
  assumes "vsize v < vcapacity v" and "PushBack T item (h, v) = (Inl e, (h', v'))"
  shows "v' = v \<and> GetSize v' = GetSize v \<and> GetCapacity v' = GetCapacity v
         \<and> elems h' v' = elems h v \<and> same_shape h h'
         \<and> (\<forall>q k. \<not> (q = vptr v \<and> k = vsize v) \<longrightarrow> load h' q k = load h q k)
         \<and> (throw_keeps_destination T \<longrightarrow> h' = h)"
proof -
  let ?r = "assign_item T item (vptr v) (vsize v) h"
  from assms have r: "fst ?r = Inl e" and h': "h' = snd ?r" and v': "v' = v"
    by (auto simp: PushBack_in_place split: prod.splits sum.splits)
  obtain d where d: "h' = store h (vptr v) (vsize v) d"
    using assign_item_store [of T item "vptr v" "vsize v" h] h' by auto
  have "elems h' v' = elems h v"
    by (simp add: elems_def v' d take_buf_store)
  moreover have "same_shape h h'"
    by (simp add: d)
  moreover have "\<forall>q k. \<not> (q = vptr v \<and> k = vsize v) \<longrightarrow> load h' q k = load h q k"
    by (auto simp: d load_store)
  moreover have "throw_keeps_destination T \<longrightarrow> h' = h"
    using r h' by (auto dest: assign_item_keeps)
  ultimately show ?thesis
    using v' by simp
qed

theorem growth_free_PushBack_failure_witness:
  "vsize (vector_at 1 2) < vcapacity (vector_at 1 2)
   \<and> fst (PushBack MoveableThrowable (Rvalue (11, True))
        (heap_with [(1, False), (- 1, False)], vector_at 1 2)) = Inl ElementThrow
   \<and> snd (snd (PushBack MoveableThrowable (Rvalue (11, True))
        (heap_with [(1, False), (- 1, False)], vector_at 1 2))) = vector_at 1 2
   \<and> elems (fst (snd (PushBack MoveableThrowable (Rvalue (11, True))
        (heap_with [(1, False), (- 1, False)], vector_at 1 2)))) (vector_at 1 2)
      = elems (heap_with [(1, False), (- 1, False)]) (vector_at 1 2)"
proof -
  let ?h = "heap_with [(1 :: int, False), (- 1, False)]"
  let ?r = "PushBack MoveableThrowable (Rvalue (11, True)) (?h, vector_at 1 2)"
  have lt: "vsize (vector_at 1 2) < vcapacity (vector_at 1 2)"
    by (simp add: vector_at_def)
  have f: "fst ?r = Inl ElementThrow"
    by code_simp
  then have r: "?r = (Inl ElementThrow, (fst (snd ?r), snd (snd ?r)))"
    by (simp add: prod_eq_iff)
  from growth_free_PushBack_failure [OF lt r]
  have c1: "snd (snd ?r) = vector_at 1 2"
    and c2: "elems (fst (snd ?r)) (snd (snd ?r)) = elems ?h (vector_at 1 2)"
    by blast+
  from c2 have c3: "elems (fst (snd ?r)) (vector_at 1 2) = elems ?h (vector_at 1 2)"
    unfolding c1 .
  from lt f c1 c3 show ?thesis
    by blast
qed

section \<open>In-place insertion\<close>

lemma Insert_in_place:
  "vsize v < vcapacity v \<Longrightarrow> IteratorChecking pos (begin_it v) (end_it v) = Inr () \<Longrightarrow>
   Insert T pos x (h, v) =
     (case InsertShift T v (nat (ptr_diff pos (begin_it v))) h of
        (Inl e, h1) \<Rightarrow> (Inl e, (h1, v))
      | (Inr _, h1) \<Rightarrow>
          (case assign_item T x (vptr v) (nat (ptr_diff pos (begin_it v))) h1 of
             (Inl e, h2) \<Rightarrow> (Inl e, (h2, v))
           | (Inr _, h2) \<Rightarrow>
               (Inr (ptr_add (vptr v, 0) (int (nat (ptr_diff pos (begin_it v))))),
                (h2, v\<lparr>vsize := Suc (vsize v)\<rparr>))))"
  by (simp add: Insert_def UniversalInsert_def Let_def begin_it_def split: prod.splits sum.splits)

lemma Insert_failure_keeps_vector:
  "Insert T pos x (h, v) = (Inl e, (h', v')) \<Longrightarrow> v' = v"
  by (auto simp: Insert_def UniversalInsert_def Let_def split: if_splits prod.splits sum.splits)

text \<open>
  C6. In-place \<open>Insert\<close> (\<open>size < capacity\<close>): whenever the call fails, \<open>GetSize()\<close> is
  what it was before the call; the size is incremented only when the right shift of the
  suffix and then the write of the new value have both completed; and when the shift
  throws, the call fails with that exception, leaving the partially shifted buffer and
  the unchanged container object.
\<close>

theorem in_place_Insert_size:
  assumes "vsize v < vcapacity v"
  shows "(\<forall>e h' v'. Insert T pos x (h, v) = (Inl e, (h', v')) \<longrightarrow> GetSize v' = GetSize v)
     \<and> (\<forall>it h' v'. Insert T pos x (h, v) = (Inr it, (h', v')) \<longrightarrow>
           GetSize v' = Suc (GetSize v)
           \<and> (\<exists>h1. InsertShift T v (nat (ptr_diff pos (begin_it v))) h = (Inr (), h1)
                \<and> assign_item T x (vptr v) (nat (ptr_diff pos (begin_it v))) h1 = (Inr (), h')))
     \<and> (\<forall>e h1. IteratorChecking pos (begin_it v) (end_it v) = Inr () \<longrightarrow>
           InsertShift T v (nat (ptr_diff pos (begin_it v))) h = (Inl e, h1) \<longrightarrow>
           Insert T pos x (h, v) = (Inl e, (h1, v)) \<and> GetSize (snd (snd (Insert T pos x (h, v)))) = GetSize v)"
proof (intro conjI allI impI)
  fix e h' v'
  assume "Insert T pos x (h, v) = (Inl e, (h', v'))"
  then show "GetSize v' = GetSize v"
    by (auto dest: Insert_failure_keeps_vector)
next
  fix it h' v'
  assume ok: "Insert T pos x (h, v) = (Inr it, (h', v'))"
  then show "GetSize v' = Suc (GetSize v)"
    by (simp add: Insert_fields(1) GetSize_def)
  from ok have chk: "IteratorChecking pos (begin_it v) (end_it v) = Inr ()"
    by (auto simp: Insert_def UniversalInsert_def Let_def split: sum.splits)
  from ok show "\<exists>h1. InsertShift T v (nat (ptr_diff pos (begin_it v))) h = (Inr (), h1)
       \<and> assign_item T x (vptr v) (nat (ptr_diff pos (begin_it v))) h1 = (Inr (), h')"
    unfolding Insert_in_place [OF assms chk]
    by (auto split: prod.splits sum.splits)
next
  fix e h1
  assume chk: "IteratorChecking pos (begin_it v) (end_it v) = Inr ()"
    and sh: "InsertShift T v (nat (ptr_diff pos (begin_it v))) h = (Inl e, h1)"
  show "Insert T pos x (h, v) = (Inl e, (h1, v))"
    unfolding Insert_in_place [OF assms chk] by (simp add: sh)
  then show "GetSize (snd (snd (Insert T pos x (h, v)))) = GetSize v"
    by simp
qed

theorem in_place_Insert_size_witness:
  "vsize (vector_at 3 4) < vcapacity (vector_at 3 4)
   \<and> IteratorChecking (1, 0) (begin_it (vector_at 3 4)) (end_it (vector_at 3 4)) = Inr ()
   \<and> fst (InsertShift MoveableThrowable (vector_at 3 4) 0
        (heap_with [(1, False), (2, True), (3, False), (- 1, False)])) = Inl ElementThrow
   \<and> buf (snd (InsertShift MoveableThrowable (vector_at 3 4) 0
        (heap_with [(1, False), (2, True), (3, False), (- 1, False)]))) 1
      = [(1, False), (2, True), (- 1, False), (3, False)]
   \<and> fst (Insert MoveableThrowable (1, 0) (Rvalue (9, False))
        (heap_with [(1, False), (2, True), (3, False), (- 1, False)], vector_at 3 4)) = Inl ElementThrow
   \<and> GetSize (snd (snd (Insert MoveableThrowable (1, 0) (Rvalue (9, False))
        (heap_with [(1, False), (2, True), (3, False), (- 1, False)], vector_at 3 4)))) = 3"
proof -
  let ?h = "heap_with [(1 :: int, False), (2, True), (3, False), (- 1, False)]"
  let ?v = "vector_at 3 4"
  let ?s = "InsertShift MoveableThrowable ?v 0 ?h"
  have lt: "vsize ?v < vcapacity ?v"
    by (simp add: vector_at_def)
  have chk: "IteratorChecking (1, 0) (begin_it ?v) (end_it ?v) = Inr ()"
    by code_simp
  have idx: "nat (ptr_diff (1, 0) (begin_it ?v)) = 0"
    by (simp add: ptr_diff_def address_def begin_it_def vector_at_def)
  have f: "fst ?s = Inl ElementThrow"
    by code_simp
  have b: "buf (snd ?s) 1 = [(1, False), (2, True), (- 1, False), (3, False)]"
    by code_simp
  have s: "InsertShift MoveableThrowable ?v (nat (ptr_diff (1, 0) (begin_it ?v))) ?h
      = (Inl ElementThrow, snd ?s)"
    unfolding idx using f by (simp add: prod_eq_iff)
  have g: "GetSize ?v = 3"
    by (simp add: GetSize_def vector_at_def)
  from in_place_Insert_size [OF lt, of MoveableThrowable "(1, 0)" "Rvalue (9, False)" ?h] chk s
  have "Insert MoveableThrowable (1, 0) (Rvalue (9, False)) (?h, ?v) = (Inl ElementThrow, (snd ?s, ?v))
      \<and> GetSize (snd (snd (Insert MoveableThrowable (1, 0) (Rvalue (9, False)) (?h, ?v)))) = GetSize ?v"
    by blast
  then have i1: "fst (Insert MoveableThrowable (1, 0) (Rvalue (9, False)) (?h, ?v)) = Inl ElementThrow"
    and i2: "GetSize (snd (snd (Insert MoveableThrowable (1, 0) (Rvalue (9, False)) (?h, ?v)))) = 3"
    using g by simp_all
  from lt chk f b i1 i2 show ?thesis
    by blast
qed

section \<open>Operations that cannot fail\<close>

text \<open>
  C2, as the claim states it, fails: a growth-free \<open>PushBack\<close> throws when the assignment
  of the new element throws. The container has one live element and capacity two, as in
  \<open>TestMoveableThrowablePushBackWithoutRealloc\<close> of main.cpp.
\<close>

theorem growth_free_PushBack_throws:
  "vsize (vector_at 1 2) < vcapacity (vector_at 1 2)
   \<and> fst (PushBack MoveableThrowable (Rvalue (11, True))
        (heap_with [(1, False), (- 1, False)], vector_at 1 2)) = Inl ElementThrow"
  by code_simp

text \<open>
  C2, amended. \<open>PopBack\<close> (on an empty container it changes nothing), \<open>Clear\<close> and
  \<open>swap\<close> always return; a growth-free \<open>PushBack\<close> returns exactly when the assignment
  of the new value into slot \<open>size\<close> does not throw.
\<close>

theorem operations_that_return:
  "(vsize (snd s) = 0 \<longrightarrow> PopBack s = (Inr (), s))
   \<and> fst (PopBack s) = Inr ()
   \<and> fst (Clear s) = Inr ()
   \<and> fst (swap a b w) = Inr ()
   \<and> (vsize v < vcapacity v \<longrightarrow>
        (fst (PushBack T item (h, v)) = Inr ())
        = (\<not> assign_throws T h item (load h (vptr v) (vsize v))))"
proof (intro conjI impI)
  show "fst (PopBack s) = Inr ()" by (simp add: PopBack_def Let_def)
  show "fst (Clear s) = Inr ()" by (simp add: Clear_def)
  show "fst (swap a b w) = Inr ()" by (simp add: swap_def Let_def)
next
  assume "vsize (snd s) = 0"
  then show "PopBack s = (Inr (), s)" by (simp add: PopBack_def Let_def)
next
  assume "vsize v < vcapacity v"
  then have "(fst (PushBack T item (h, v)) = Inr ())
      = (fst (assign_item T item (vptr v) (vsize v) h) = Inr ())"
    by (auto simp: PushBack_in_place split: prod.splits sum.splits)
  then show "(fst (PushBack T item (h, v)) = Inr ())
      = (\<not> assign_throws T h item (load h (vptr v) (vsize v)))"
    by (simp add: assign_item_throws)
qed

theorem operations_that_return_witness:
  "vsize (snd (heap_with [0 :: int, 0], vector_at 0 2)) = 0
   \<and> PopBack (heap_with [0 :: int, 0], vector_at 0 2) = (Inr (), (heap_with [0, 0], vector_at 0 2))
   \<and> vsize (vector_at 0 2) < vcapacity (vector_at 0 2)
   \<and> \<not> assign_throws int_type (heap_with [0, 0]) (Lvalue 5) (load (heap_with [0, 0]) (vptr (vector_at 0 2)) (vsize (vector_at 0 2)))
   \<and> fst (PushBack int_type (Lvalue 5) (heap_with [0, 0], vector_at 0 2)) = Inr ()"
proof -
  let ?h = "heap_with [0 :: int, 0]"
  let ?v = "vector_at 0 2"
  have z: "vsize (snd (?h, ?v)) = 0" by (simp add: vector_at_def)
  have lt: "vsize ?v < vcapacity ?v" by (simp add: vector_at_def)
  have nt: "\<not> assign_throws int_type ?h (Lvalue 5) (load ?h (vptr ?v) (vsize ?v))"
    by (simp add: int_type_def)
  from operations_that_return [of "(?h, ?v)" _ _ _ ?v int_type "Lvalue 5" ?h] z lt nt
  show ?thesis by blast
qed

section \<open>The relocation policy\<close>

lemma move_range_ignores_copy:
  "move_range (T\<lparr>copy_assign := cf\<rparr>) sp si dp di n h = move_range T sp si dp di n h"
  by (induction n arbitrary: h si di) (auto split: moved.splits)

lemma copy_range_ignores_move:
  "copy_range (T\<lparr>move_assign := mf\<rparr>) sp si dp di n h = copy_range T sp si dp di n h"
  by (induction n arbitrary: h si di) (auto split: copied.splits)

lemma move_backward_ignores_copy:
  "move_backward (T\<lparr>copy_assign := cf\<rparr>) sp fi dp dl n h = move_backward T sp fi dp dl n h"
  by (induction n arbitrary: h dl) (auto split: moved.splits)

lemma copy_backward_ignores_move:
  "copy_backward (T\<lparr>move_assign := mf\<rparr>) sp fi dp dl n h = copy_backward T sp fi dp dl n h"
  by (induction n arbitrary: h dl) (auto split: copied.splits)

lemma DataOverwrite_policy:
  "DataOverwrite T a b c h =
     (if move_policy T
      then move_range T (fst a) (nat (snd a)) (fst c) (nat (snd c)) (nat (ptr_diff b a)) h
      else copy_range T (fst a) (nat (snd a)) (fst c) (nat (snd c)) (nat (ptr_diff b a)) h)"
  by (simp add: DataOverwrite_def move_policy_def Let_def)

lemma InsertShift_policy:
  "InsertShift T v idx h =
     (if move_policy T
      then move_backward T (vptr v) idx (vptr v) (Suc (vsize v)) (vsize v - idx) h
      else copy_backward T (vptr v) idx (vptr v) (Suc (vsize v)) (vsize v - idx) h)"
  by (auto simp: InsertShift_def move_policy_def)

lemma DataOverwrite_copy_blocks:
  "\<not> move_policy T \<Longrightarrow> DataOverwrite T a b c h = (r, h') \<Longrightarrow> q \<noteq> fst c \<Longrightarrow>
   blocks h' q = blocks h q"
  using copy_range_blocks [of q "fst c" T "fst a" "nat (snd a)" "nat (snd c)" "nat (ptr_diff b a)" h]
  by (simp add: DataOverwrite_policy)

lemma assign_item_blocks_eq:
  "assign_item T item p i h = (r, h') \<Longrightarrow> q \<noteq> p \<Longrightarrow> blocks h' q = blocks h q"
  using assign_item_blocks [of q p T item i h] by simp

lemma generate_default_blocks_eq:
  "generate_default T p i n h = (r, h') \<Longrightarrow> q \<noteq> p \<Longrightarrow> blocks h' q = blocks h q"
  using generate_default_blocks [of q p T i n h] by simp

lemma ArrayPtr_new_blocks:
  "ArrayPtr_new T n h = (array, h1) \<Longrightarrow> 0 < n \<Longrightarrow>
   array = brk h \<and> (\<forall>q. q \<noteq> brk h \<longrightarrow> blocks h1 q = blocks h q)"
  by (auto simp: ArrayPtr_new_def)

lemma blocks_ArrayPtr_delete [simp]:
  "blocks (ArrayPtr_delete p h) q = (if q = p then None else blocks h q)"
  by (simp add: ArrayPtr_delete_def)

lemma grown_capacity_pos [simp]: "0 < grown_capacity c"
  by (simp add: grown_capacity_def)

lemma PushBack_growth_failure:
  assumes "\<not> move_policy T" and "vsize v = vcapacity v"
    and "PushBack T x (h, v) = (Inl e, (h', v'))" and "q \<noteq> brk h"
  shows "v' = v \<and> blocks h' q = blocks h q"
proof -
  obtain array h1 where new: "ArrayPtr_new T (grown_capacity (vcapacity v)) h = (array, h1)"
    by (cases "ArrayPtr_new T (grown_capacity (vcapacity v)) h")
  from ArrayPtr_new_blocks [OF new] have a: "array = brk h" and b1: "blocks h1 q = blocks h q"
    using assms(4) by simp_all
  obtain r2 h2 where asg: "assign_item T x array (vsize v) h1 = (r2, h2)"
    by (cases "assign_item T x array (vsize v) h1")
  have b2: "blocks h2 q = blocks h1 q"
    using assign_item_blocks_eq [OF asg] a assms(4) by simp
  obtain r3 h3 where dat: "DataOverwrite T (begin_it v) (end_it v) (array, 0) h2 = (r3, h3)"
    by (cases "DataOverwrite T (begin_it v) (end_it v) (array, 0) h2")
  have b3: "blocks h3 q = blocks h2 q"
    using DataOverwrite_copy_blocks [OF assms(1) dat] a assms(4) by simp
  from assms(2,3) new asg dat show ?thesis
    using a assms(4) b1 b2 b3
    by (auto simp: PushBack_def UniversalPushBack_def Let_def split: sum.splits)
qed

lemma Reserve_failure:
  assumes "\<not> move_policy T"
    and "Reserve T n (h, v) = (Inl e, (h', v'))" and "q \<noteq> brk h"
  shows "v' = v \<and> blocks h' q = blocks h q"
proof -
  from assms(2) have lt: "vcapacity v < n"
    by (auto simp: Reserve_def Let_def split: if_splits)
  obtain array h1 where new: "ArrayPtr_new T n h = (array, h1)"
    by (cases "ArrayPtr_new T n h")
  from ArrayPtr_new_blocks [OF new] lt have a: "array = brk h" and b1: "blocks h1 q = blocks h q"
    using assms(3) by simp_all
  obtain r2 h2 where dat: "DataOverwrite T (begin_it v) (end_it v) (array, 0) h1 = (r2, h2)"
    by (cases "DataOverwrite T (begin_it v) (end_it v) (array, 0) h1")
  have b2: "blocks h2 q = blocks h1 q"
    using DataOverwrite_copy_blocks [OF assms(1) dat] a assms(3) by simp
  from assms(2) new dat lt show ?thesis
    using a assms(3) b1 b2
    by (auto simp: Reserve_def Let_def split: sum.splits)
qed

lemma Resize_failure:
  assumes "\<not> move_policy T" and "vcapacity v < n"
    and "Resize T n (h, v) = (Inl e, (h', v'))" and "q \<noteq> brk h"
  shows "v' = v \<and> blocks h' q = blocks h q"
proof -
  obtain array h1 where new: "ArrayPtr_new T n h = (array, h1)"
    by (cases "ArrayPtr_new T n h")
  from ArrayPtr_new_blocks [OF new] assms(2) have a: "array = brk h" and b1: "blocks h1 q = blocks h q"
    using assms(4) by simp_all
  obtain r2 h2 where dat: "DataOverwrite T (begin_it v) (end_it v) (array, 0) h1 = (r2, h2)"
    by (cases "DataOverwrite T (begin_it v) (end_it v) (array, 0) h1")
  have b2: "blocks h2 q = blocks h1 q"
    using DataOverwrite_copy_blocks [OF assms(1) dat] a assms(4) by simp
  obtain r3 h3 where gen: "generate_default T array (vsize v) (n - vsize v) h2 = (r3, h3)"
    by (cases "generate_default T array (vsize v) (n - vsize v) h2")
  have b3: "blocks h3 q = blocks h2 q"
    using generate_default_blocks_eq [OF gen] a assms(4) by simp
  from assms(2,3) new dat gen show ?thesis
    using a assms(4) b1 b2 b3
    by (auto simp: Resize_def Let_def split: sum.splits)
qed

lemma Insert_growth_failure:
  assumes "\<not> move_policy T" and "vsize v = vcapacity v"
    and "Insert T pos x (h, v) = (Inl e, (h', v'))" and "q \<noteq> brk h"
  shows "v' = v \<and> blocks h' q = blocks h q"
proof (cases "IteratorChecking pos (begin_it v) (end_it v)")
  case (Inl e')
  with assms(3) show ?thesis
    by (simp add: Insert_def UniversalInsert_def Let_def)
next
  case (Inr u)
  let ?idx = "nat (ptr_diff pos (begin_it v))"
  obtain array h1 where new: "ArrayPtr_new T (grown_capacity (vcapacity v)) h = (array, h1)"
    by (cases "ArrayPtr_new T (grown_capacity (vcapacity v)) h")
  from ArrayPtr_new_blocks [OF new] have a: "array = brk h" and b1: "blocks h1 q = blocks h q"
    using assms(4) by simp_all
  obtain r2 h2 where asg: "assign_item T x array ?idx h1 = (r2, h2)"
    by (cases "assign_item T x array ?idx h1")
  have b2: "blocks h2 q = blocks h1 q"
    using assign_item_blocks_eq [OF asg] a assms(4) by simp
  obtain r3 h3 where d1: "DataOverwrite T (begin_it v) (ptr_add (begin_it v) (int ?idx)) (array, 0) h2 = (r3, h3)"
    by (cases "DataOverwrite T (begin_it v) (ptr_add (begin_it v) (int ?idx)) (array, 0) h2")
  have b3: "blocks h3 q = blocks h2 q"
    using DataOverwrite_copy_blocks [OF assms(1) d1] a assms(4) by simp
  obtain r4 h4 where d2: "DataOverwrite T (ptr_add (begin_it v) (int ?idx)) (end_it v) (array, int ?idx + 1) h3 = (r4, h4)"
    by (cases "DataOverwrite T (ptr_add (begin_it v) (int ?idx)) (end_it v) (array, int ?idx + 1) h3")
  have b4: "blocks h4 q = blocks h3 q"
    using DataOverwrite_copy_blocks [OF assms(1) d2] a assms(4) by simp
  from assms(2,3) Inr new asg d1 d2 show ?thesis
    using a assms(4) b1 b2 b3 b4
    by (auto simp: Insert_def UniversalInsert_def Let_def split: sum.splits)
qed

lemma elems_cong: "blocks h' (vptr v) = blocks h (vptr v) \<Longrightarrow> elems h' v = elems h v"
  by (simp add: elems_def buf_def)

lemma failure_triple:
  assumes "\<And>q. q \<noteq> brk h \<Longrightarrow> v' = v \<and> blocks h' q = blocks h q" and "vptr v < brk h"
  shows "v' = v \<and> (\<forall>q. q \<noteq> brk h \<longrightarrow> blocks h' q = blocks h q) \<and> elems h' v' = elems h v"
proof -
  from assms(2) have "vptr v \<noteq> brk h" by simp
  from assms(1) [OF this] have vv: "v' = v" and bb: "blocks h' (vptr v) = blocks h (vptr v)"
    by simp_all
  have "elems h' v' = elems h v"
    unfolding vv using bb by (rule elems_cong)
  with vv assms(1) show ?thesis by blast
qed

text \<open>
  C1, as the claim states it, fails for the in-place shifts: under the copy policy a
  failing \<open>Erase\<close> has already overwritten source elements. Erasing the first of four
  elements, with the copy of the fourth throwing: the source slot 1 held 2 and holds 3.
\<close>

theorem in_place_copy_overwrites_sources:
  "\<not> move_policy CopyThrowable
   \<and> fst (Erase CopyThrowable (1, 0)
        (heap_with [(1, False), (2, False), (3, False), (4, True)], vector_at 4 4)) = Inl ElementThrow
   \<and> load (heap_with [(1 :: int, False), (2, False), (3, False), (4, True)]) 1 1 = (2, False)
   \<and> load (fst (snd (Erase CopyThrowable (1, 0)
        (heap_with [(1, False), (2, False), (3, False), (4, True)], vector_at 4 4)))) 1 1 = (3, False)"
  by code_simp

text \<open>
  C1, amended. Every bulk relocation (\<open>DataOverwrite\<close>, used by the growth of
  \<open>PushBack\<close> and \<open>Insert\<close>, by \<open>Resize\<close>, \<open>Reserve\<close> and the left shift of \<open>Erase\<close>, and
  the in-place right shift of \<open>Insert\<close>) transfers by move exactly when the move
  assignment is nothrow or the type is not copy-assignable, and never calls the copy
  assignment then; otherwise it transfers by copy and never calls the move assignment.
  Under the copy policy, when a relocation into a newly allocated buffer (growth of
  \<open>PushBack\<close> and \<open>Insert\<close>, \<open>Resize\<close> beyond the capacity, \<open>Reserve\<close>) fails, the container
  object, every block of the old heap and so the elements are unchanged.
\<close>

theorem relocation_policy:
  "(move_policy T \<longrightarrow>
      DataOverwrite T a b c h
        = move_range T (fst a) (nat (snd a)) (fst c) (nat (snd c)) (nat (ptr_diff b a)) h
      \<and> InsertShift T v idx h
        = move_backward T (vptr v) idx (vptr v) (Suc (vsize v)) (vsize v - idx) h
      \<and> DataOverwrite (T\<lparr>copy_assign := cf\<rparr>) a b c h = DataOverwrite T a b c h
      \<and> InsertShift (T\<lparr>copy_assign := cf\<rparr>) v idx h = InsertShift T v idx h)
   \<and> (\<not> move_policy T \<longrightarrow>
      DataOverwrite T a b c h
        = copy_range T (fst a) (nat (snd a)) (fst c) (nat (snd c)) (nat (ptr_diff b a)) h
      \<and> InsertShift T v idx h
        = copy_backward T (vptr v) idx (vptr v) (Suc (vsize v)) (vsize v - idx) h
      \<and> DataOverwrite (T\<lparr>move_assign := mf\<rparr>) a b c h = DataOverwrite T a b c h
      \<and> InsertShift (T\<lparr>move_assign := mf\<rparr>) v idx h = InsertShift T v idx h)
   \<and> (\<not> move_policy T \<longrightarrow> vptr v < brk h \<longrightarrow>
      (vsize v = vcapacity v \<longrightarrow> PushBack T x (h, v) = (Inl e, (h', v')) \<longrightarrow>
         v' = v \<and> (\<forall>q. q \<noteq> brk h \<longrightarrow> blocks h' q = blocks h q) \<and> elems h' v' = elems h v)
      \<and> (vsize v = vcapacity v \<longrightarrow> Insert T pos x (h, v) = (Inl e, (h', v')) \<longrightarrow>
         v' = v \<and> (\<forall>q. q \<noteq> brk h \<longrightarrow> blocks h' q = blocks h q) \<and> elems h' v' = elems h v)
      \<and> (vcapacity v < n \<longrightarrow> Resize T n (h, v) = (Inl e, (h', v')) \<longrightarrow>
         v' = v \<and> (\<forall>q. q \<noteq> brk h \<longrightarrow> blocks h' q = blocks h q) \<and> elems h' v' = elems h v)
      \<and> (Reserve T n (h, v) = (Inl e, (h', v')) \<longrightarrow>
         v' = v \<and> (\<forall>q. q \<noteq> brk h \<longrightarrow> blocks h' q = blocks h q) \<and> elems h' v' = elems h v))"
proof -
  have mv: "move_policy (T\<lparr>copy_assign := cf\<rparr>) = move_policy T"
    and cp: "move_policy (T\<lparr>move_assign := mf\<rparr>) = move_policy T"
    by (simp_all add: move_policy_def)
  have A: "move_policy T \<longrightarrow>
      DataOverwrite T a b c h
        = move_range T (fst a) (nat (snd a)) (fst c) (nat (snd c)) (nat (ptr_diff b a)) h
      \<and> InsertShift T v idx h
        = move_backward T (vptr v) idx (vptr v) (Suc (vsize v)) (vsize v - idx) h
      \<and> DataOverwrite (T\<lparr>copy_assign := cf\<rparr>) a b c h = DataOverwrite T a b c h
      \<and> InsertShift (T\<lparr>copy_assign := cf\<rparr>) v idx h = InsertShift T v idx h"
    by (simp add: DataOverwrite_policy InsertShift_policy mv move_range_ignores_copy
        move_backward_ignores_copy)
  have B: "\<not> move_policy T \<longrightarrow>
      DataOverwrite T a b c h
        = copy_range T (fst a) (nat (snd a)) (fst c) (nat (snd c)) (nat (ptr_diff b a)) h
      \<and> InsertShift T v idx h
        = copy_backward T (vptr v) idx (vptr v) (Suc (vsize v)) (vsize v - idx) h
      \<and> DataOverwrite (T\<lparr>move_assign := mf\<rparr>) a b c h = DataOverwrite T a b c h
      \<and> InsertShift (T\<lparr>move_assign := mf\<rparr>) v idx h = InsertShift T v idx h"
    by (simp add: DataOverwrite_policy InsertShift_policy cp copy_range_ignores_move
        copy_backward_ignores_move)
  have C: "\<not> move_policy T \<longrightarrow> vptr v < brk h \<longrightarrow>
      (vsize v = vcapacity v \<longrightarrow> PushBack T x (h, v) = (Inl e, (h', v')) \<longrightarrow>
         v' = v \<and> (\<forall>q. q \<noteq> brk h \<longrightarrow> blocks h' q = blocks h q) \<and> elems h' v' = elems h v)
      \<and> (vsize v = vcapacity v \<longrightarrow> Insert T pos x (h, v) = (Inl e, (h', v')) \<longrightarrow>
         v' = v \<and> (\<forall>q. q \<noteq> brk h \<longrightarrow> blocks h' q = blocks h q) \<and> elems h' v' = elems h v)
      \<and> (vcapacity v < n \<longrightarrow> Resize T n (h, v) = (Inl e, (h', v')) \<longrightarrow>
         v' = v \<and> (\<forall>q. q \<noteq> brk h \<longrightarrow> blocks h' q = blocks h q) \<and> elems h' v' = elems h v)
      \<and> (Reserve T n (h, v) = (Inl e, (h', v')) \<longrightarrow>
         v' = v \<and> (\<forall>q. q \<noteq> brk h \<longrightarrow> blocks h' q = blocks h q) \<and> elems h' v' = elems h v)"
  proof (intro impI conjI [OF impI [OF impI] conjI [OF impI [OF impI] conjI [OF impI [OF impI] impI]]])
    assume c: "\<not> move_policy T" and old: "vptr v < brk h"
    { assume "vsize v = vcapacity v" and "PushBack T x (h, v) = (Inl e, (h', v'))"
      from failure_triple [OF PushBack_growth_failure [OF c this] old]
      show "v' = v \<and> (\<forall>q. q \<noteq> brk h \<longrightarrow> blocks h' q = blocks h q) \<and> elems h' v' = elems h v" . }
    { assume "vsize v = vcapacity v" and "Insert T pos x (h, v) = (Inl e, (h', v'))"
      from failure_triple [OF Insert_growth_failure [OF c this] old]
      show "v' = v \<and> (\<forall>q. q \<noteq> brk h \<longrightarrow> blocks h' q = blocks h q) \<and> elems h' v' = elems h v" . }
    { assume "vcapacity v < n" and "Resize T n (h, v) = (Inl e, (h', v'))"
      from failure_triple [OF Resize_failure [OF c this] old]
      show "v' = v \<and> (\<forall>q. q \<noteq> brk h \<longrightarrow> blocks h' q = blocks h q) \<and> elems h' v' = elems h v" . }
    { assume "Reserve T n (h, v) = (Inl e, (h', v'))"
      from failure_triple [OF Reserve_failure [OF c this] old]
      show "v' = v \<and> (\<forall>q. q \<noteq> brk h \<longrightarrow> blocks h' q = blocks h q) \<and> elems h' v' = elems h v" . }
  qed
  from A B C show ?thesis
    by (intro conjI)
qed

theorem relocation_policy_witness:
  "move_policy MoveableThrowable
   \<and> InsertShift MoveableThrowable (vector_at 3 4) 0 (heap_with [(1, False), (2, True), (3, False), (- 1, False)])
       = move_backward MoveableThrowable (vptr (vector_at 3 4)) 0 (vptr (vector_at 3 4))
           (Suc (vsize (vector_at 3 4))) (vsize (vector_at 3 4) - 0)
           (heap_with [(1, False), (2, True), (3, False), (- 1, False)])
   \<and> \<not> move_policy CopyThrowable
   \<and> vptr (vector_at 2 2) < brk (heap_with [(1 :: int, False), (2, True)])
   \<and> fst (Reserve CopyThrowable 8 (heap_with [(1, False), (2, True)], vector_at 2 2)) = Inl ElementThrow
   \<and> snd (snd (Reserve CopyThrowable 8 (heap_with [(1, False), (2, True)], vector_at 2 2))) = vector_at 2 2
   \<and> elems (fst (snd (Reserve CopyThrowable 8 (heap_with [(1, False), (2, True)], vector_at 2 2))))
         (vector_at 2 2)
       = elems (heap_with [(1, False), (2, True)]) (vector_at 2 2)"
proof -
  let ?hA = "heap_with [(1 :: int, False), (2, True), (3, False), (- 1, False)]"
  let ?hB = "heap_with [(1 :: int, False), (2, True)]"
  let ?r = "Reserve CopyThrowable 8 (?hB, vector_at 2 2)"
  have mp: "move_policy MoveableThrowable"
    by (simp add: move_policy_def MoveableThrowable_def)
  have cp: "\<not> move_policy CopyThrowable"
    by (simp add: move_policy_def CopyThrowable_def)
  have old: "vptr (vector_at 2 2) < brk ?hB"
    by (simp add: vector_at_def heap_with_def)
  have f: "fst ?r = Inl ElementThrow"
    by code_simp
  then have r: "?r = (Inl ElementThrow, (fst (snd ?r), snd (snd ?r)))"
    by (simp add: prod_eq_iff)
  from relocation_policy [where T = MoveableThrowable and v = "vector_at 3 4" and idx = 0 and h = ?hA] mp
  have m1: "InsertShift MoveableThrowable (vector_at 3 4) 0 ?hA
       = move_backward MoveableThrowable (vptr (vector_at 3 4)) 0 (vptr (vector_at 3 4))
           (Suc (vsize (vector_at 3 4))) (vsize (vector_at 3 4) - 0) ?hA"
    by blast
  from relocation_policy [where T = CopyThrowable and v = "vector_at 2 2" and h = ?hB and n = 8
      and e = ElementThrow and h' = "fst (snd ?r)" and v' = "snd (snd ?r)"] cp old r
  have c1: "snd (snd ?r) = vector_at 2 2"
    and c2: "elems (fst (snd ?r)) (snd (snd ?r)) = elems ?hB (vector_at 2 2)"
    by blast+
  from c2 have c3: "elems (fst (snd ?r)) (vector_at 2 2) = elems ?hB (vector_at 2 2)"
    unfolding c1 .
  from mp m1 cp old f c1 c3 show ?thesis
    by blast
qed

section \<open>Well-formed containers and their iterators\<close>

lemma buf_null: "blocks h p = None \<Longrightarrow> buf h p = []"
  by (simp add: buf_def)

lemma wf_null:
  assumes "wf_state (h, v)" and "vptr v = 0"
  shows "vcapacity v = 0" and "vsize v = 0"
  using assms by (auto simp: wf_state_def buf_def)

lemma wf_nonnull: "wf_state (h, v) \<Longrightarrow> vsize v < vcapacity v \<Longrightarrow> vptr v \<noteq> 0"
  by (auto dest: wf_null)

lemma end_it_wf: "wf_state (h, v) \<Longrightarrow> end_it v = (vptr v, int (vsize v))"
  by (cases "vptr v = 0") (auto simp: end_it_def ptr_add_def dest: wf_null)

lemma ptr_add_begin: "vptr v \<noteq> 0 \<or> i = 0 \<Longrightarrow> ptr_add (begin_it v) (int i) = (vptr v, int i)"
  by (auto simp: ptr_add_def begin_it_def)

lemma Insert_check:
  "wf_state (h, v) \<Longrightarrow>
   IteratorChecking (vptr v, i) (begin_it v) (end_it v)
     = (if i < 0 \<or> int (vsize v) < i then Inl OutOfRange else Inr ())"
  by (simp add: IteratorChecking_def ptr_less_def address_def begin_it_def end_it_wf)

lemma position_within_iff:
  "position_within v n pos
     = (address (begin_it v) \<le> address pos \<and> address pos \<le> address (begin_it v) + int n)"
proof
  assume "position_within v n pos"
  then show "address (begin_it v) \<le> address pos \<and> address pos \<le> address (begin_it v) + int n"
    by (auto simp: position_within_def)
next
  assume a: "address (begin_it v) \<le> address pos \<and> address pos \<le> address (begin_it v) + int n"
  let ?k = "nat (address pos - address (begin_it v))"
  from a have "?k \<le> n" and "address pos = address (begin_it v) + int ?k"
    by auto
  then show "position_within v n pos"
    unfolding position_within_def by blast
qed

lemma address_end_it: "wf_state (h, v) \<Longrightarrow> address (end_it v) = address (begin_it v) + int (vsize v)"
  by (simp add: end_it_wf address_def begin_it_def)

lemma Insert_check_position:
  "wf_state (h, v) \<Longrightarrow>
   IteratorChecking pos (begin_it v) (end_it v)
     = (if position_within v (vsize v) pos then Inr () else Inl OutOfRange)"
  by (auto simp: IteratorChecking_def ptr_less_def position_within_iff address_end_it)

lemma Insert_address_cong:
  "address pos = address pos' \<Longrightarrow> Insert T pos x s = Insert T pos' x s"
  unfolding Insert_def UniversalInsert_def IteratorChecking_def ptr_less_def ptr_diff_def Let_def
  by (simp only:)

lemma foreign_position:
  assumes "wf_state (h, v)" and "fst pos \<noteq> vptr v" and "0 \<le> snd pos" and "snd pos < 2 ^ 40"
    and "vsize v < 2 ^ 40"
  shows "\<not> position_within v (vsize v) pos"
proof (cases "fst pos < vptr v")
  case True
  then have "int (fst pos) + 1 \<le> int (vptr v)" by simp
  then have "(int (fst pos) + 1) * 2 ^ 40 \<le> int (vptr v) * 2 ^ 40"
    by (rule mult_right_mono) simp
  with assms(4) have "address pos < address (begin_it v)"
    by (simp add: address_def begin_it_def algebra_simps)
  then show ?thesis by (simp add: position_within_iff)
next
  case False
  with assms(2) have "int (vptr v) + 1 \<le> int (fst pos)" by simp
  then have "(int (vptr v) + 1) * 2 ^ 40 \<le> int (fst pos) * 2 ^ 40"
    by (rule mult_right_mono) simp
  moreover have "int (vsize v) < 2 ^ 40"
    using assms(5) by (metis of_nat_less_iff of_nat_numeral of_nat_power)
  ultimately have "address (begin_it v) + int (vsize v) < address pos"
    using assms(3) by (simp add: address_def begin_it_def algebra_simps)
  then show ?thesis by (simp add: position_within_iff)
qed

section \<open>Element types that never throw\<close>

lemma never_throws_copy: "never_throws T \<Longrightarrow> \<exists>d'. copy_assign T d s = Copied d'"
  unfolding never_throws_def by blast

lemma never_throws_move: "never_throws T \<Longrightarrow> \<exists>d' s'. move_assign T d s = Moved d' s'"
  unfolding never_throws_def by blast

lemma assign_item_total: "never_throws T \<Longrightarrow> fst (assign_item T item p i h) = Inr ()"
proof (cases item)
  case (Lvalue x)
  assume "never_throws T"
  from never_throws_copy [OF this, of "load h p i" x] Lvalue show ?thesis by auto
next
  case (Rvalue x)
  assume "never_throws T"
  from never_throws_move [OF this, of "load h p i" x] Rvalue show ?thesis by auto
next
  case (LvalueAt b k)
  assume "never_throws T"
  from never_throws_copy [OF this, of "load h p i" "load h b k"] LvalueAt show ?thesis by auto
qed

lemma copy_range_total: "never_throws T \<Longrightarrow> fst (copy_range T sp si dp di n h) = Inr ()"
proof (induction n arbitrary: h si di)
  case 0
  show ?case by simp
next
  case (Suc n)
  from never_throws_copy [OF Suc.prems, of "load h dp di" "load h sp si"]
  obtain d where "copy_assign T (load h dp di) (load h sp si) = Copied d" ..
  with Suc.IH [OF Suc.prems] show ?case by simp
qed

lemma move_range_total: "never_throws T \<Longrightarrow> fst (move_range T sp si dp di n h) = Inr ()"
proof (induction n arbitrary: h si di)
  case 0
  show ?case by simp
next
  case (Suc n)
  from never_throws_move [OF Suc.prems, of "load h dp di" "load h sp si"]
  obtain d s where "move_assign T (load h dp di) (load h sp si) = Moved d s" by blast
  with Suc.IH [OF Suc.prems] show ?case by simp
qed

lemma copy_backward_total: "never_throws T \<Longrightarrow> fst (copy_backward T sp fi dp dl n h) = Inr ()"
proof (induction n arbitrary: h dl)
  case 0
  show ?case by simp
next
  case (Suc n)
  from never_throws_copy [OF Suc.prems, of "load h dp (dl - 1)" "load h sp (fi + n)"]
  obtain d where "copy_assign T (load h dp (dl - 1)) (load h sp (fi + n)) = Copied d" ..
  with Suc.IH [OF Suc.prems] show ?case by simp
qed

lemma move_backward_total: "never_throws T \<Longrightarrow> fst (move_backward T sp fi dp dl n h) = Inr ()"
proof (induction n arbitrary: h dl)
  case 0
  show ?case by simp
next
  case (Suc n)
  from never_throws_move [OF Suc.prems, of "load h dp (dl - 1)" "load h sp (fi + n)"]
  obtain d s where "move_assign T (load h dp (dl - 1)) (load h sp (fi + n)) = Moved d s" by blast
  with Suc.IH [OF Suc.prems] show ?case by simp
qed

lemma DataOverwrite_total: "never_throws T \<Longrightarrow> fst (DataOverwrite T a b c h) = Inr ()"
  by (simp add: DataOverwrite_def Let_def copy_range_total move_range_total)

lemma InsertShift_total: "never_throws T \<Longrightarrow> fst (InsertShift T v idx h) = Inr ()"
  by (simp add: InsertShift_def copy_backward_total move_backward_total)

section \<open>Relocation, cell by cell\<close>

lemma DataOverwrite_cells:
  assumes "DataOverwrite T (sp, int si) (sp, int (si + n)) (dp, int di) h = (Inr (), h')"
    and "value_semantics T" and "sp \<noteq> dp \<or> di < si" and "di + n \<le> length (buf h dp)"
    and "di \<le> k" and "k < di + n"
  shows "load h' dp k = load h sp (si + (k - di))"
proof (cases "move_policy T")
  case True
  with assms(1) have "move_range T sp si dp di n h = (Inr (), h')"
    by (simp add: DataOverwrite_policy ptr_diff_def address_def)
  from move_range_cells [OF this assms(2-6)] show ?thesis .
next
  case False
  with assms(1) have "copy_range T sp si dp di n h = (Inr (), h')"
    by (simp add: DataOverwrite_policy ptr_diff_def address_def)
  from copy_range_cells [OF this assms(2-6)] show ?thesis .
qed

lemma DataOverwrite_frame:
  assumes "DataOverwrite T (sp, int si) (sp, int (si + n)) (dp, int di) h = (r, h')"
    and "\<not> (q = dp \<and> di \<le> k \<and> k < di + n)" and "\<not> (q = sp \<and> si \<le> k \<and> k < si + n)"
  shows "load h' q k = load h q k"
proof (cases "move_policy T")
  case True
  with assms(1) have "move_range T sp si dp di n h = (r, h')"
    by (simp add: DataOverwrite_policy ptr_diff_def address_def)
  with move_range_frame [OF assms(2,3), of T h] show ?thesis by simp
next
  case False
  with assms(1) have "copy_range T sp si dp di n h = (r, h')"
    by (simp add: DataOverwrite_policy ptr_diff_def address_def)
  with copy_range_frame [OF assms(2), of T sp si h] show ?thesis by simp
qed

lemma DataOverwrite_shape_eq: "DataOverwrite T a b c h = (r, h') \<Longrightarrow> same_shape h h'"
  using DataOverwrite_shape [of h T a b c] by simp

lemma InsertShift_cells:
  assumes "InsertShift T v idx h = (Inr (), h')" and "value_semantics T"
    and "idx \<le> vsize v" and "Suc (vsize v) \<le> length (buf h (vptr v))"
    and "idx < k" and "k \<le> vsize v"
  shows "load h' (vptr v) k = load h (vptr v) (k - 1)"
proof -
  let ?p = "vptr v" and ?n = "vsize v - idx" and ?dl = "Suc (vsize v)"
  have c: "?p \<noteq> ?p \<or> idx + ?n < ?dl" "?n \<le> ?dl" "?dl - ?n \<le> k" "k < ?dl"
    using assms(3,5,6) by auto
  have i: "idx + (k - (?dl - ?n)) = k - 1"
    using assms(3,5,6) by auto
  show ?thesis
  proof (cases "move_policy T")
    case True
    with assms(1) have "move_backward T ?p idx ?p ?dl ?n h = (Inr (), h')"
      by (simp add: InsertShift_policy)
    from move_backward_cells [OF this assms(2) c(1,2) assms(4) c(3,4)] show ?thesis
      unfolding i .
  next
    case False
    with assms(1) have "copy_backward T ?p idx ?p ?dl ?n h = (Inr (), h')"
      by (simp add: InsertShift_policy)
    from copy_backward_cells [OF this assms(2) c(1,2) assms(4) c(3,4)] show ?thesis
      unfolding i .
  qed
qed

lemma InsertShift_frame:
  assumes "InsertShift T v idx h = (r, h')" and "idx \<le> vsize v"
    and "q \<noteq> vptr v \<or> k < idx \<or> vsize v < k"
  shows "load h' q k = load h q k"
proof -
  let ?p = "vptr v" and ?n = "vsize v - idx" and ?dl = "Suc (vsize v)"
  have c: "\<not> (q = ?p \<and> ?dl - ?n \<le> k \<and> k < ?dl)" "\<not> (q = ?p \<and> idx \<le> k \<and> k < idx + ?n)" "?n \<le> ?dl"
    using assms(2,3) by auto
  show ?thesis
  proof (cases "move_policy T")
    case True
    with assms(1) have "move_backward T ?p idx ?p ?dl ?n h = (r, h')"
      by (simp add: InsertShift_policy)
    with move_backward_frame [OF c, of T h] show ?thesis by simp
  next
    case False
    with assms(1) have "copy_backward T ?p idx ?p ?dl ?n h = (r, h')"
      by (simp add: InsertShift_policy)
    with copy_backward_frame [OF c(1,3), of T ?p idx h] show ?thesis by simp
  qed
qed

lemma InsertShift_shape_eq: "InsertShift T v idx h = (r, h') \<Longrightarrow> same_shape h h'"
  using InsertShift_shape [of h T v idx] by simp

lemma assign_item_shape_eq: "assign_item T item p i h = (r, h') \<Longrightarrow> same_shape h h'"
  using assign_item_shape [of h T item p i] by simp

lemma assign_item_frame_eq:
  "assign_item T item p i h = (r, h') \<Longrightarrow> \<not> (q = p \<and> k = i) \<Longrightarrow> load h' q k = load h q k"
  using assign_item_frame [of q p k i T item h] by simp

lemma assign_item_value:
  assumes "assign_item T item p i h = (Inr (), h')" and "value_semantics T"
    and "i < length (buf h p)"
  shows "load h' p i = arg_read h item"
proof (cases item)
  case (Lvalue x)
  with assms(1) obtain d where c: "copy_assign T (load h p i) x = Copied d" and h': "h' = store h p i d"
    by (auto split: copied.splits)
  from value_semantics_copy [OF assms(2) c] h' assms(3) Lvalue show ?thesis
    by (simp add: load_store)
next
  case (Rvalue x)
  with assms(1) obtain d s where c: "move_assign T (load h p i) x = Moved d s" and h': "h' = store h p i d"
    by (auto split: moved.splits)
  from value_semantics_move [OF assms(2) c] h' assms(3) Rvalue show ?thesis
    by (simp add: load_store)
next
  case (LvalueAt b k)
  with assms(1) obtain d where c: "copy_assign T (load h p i) (load h b k) = Copied d"
    and h': "h' = store h p i d"
    by (auto split: copied.splits)
  from value_semantics_copy [OF assms(2) c] h' assms(3) LvalueAt show ?thesis
    by (simp add: load_store)
qed

lemma arg_read_cong:
  "(\<And>b k. item = LvalueAt b k \<Longrightarrow> load h' b k = load h b k) \<Longrightarrow> arg_read h' item = arg_read h item"
  by (cases item) simp_all

section \<open>The element sequence\<close>

lemma length_elems: "vsize v \<le> length (buf h (vptr v)) \<Longrightarrow> length (elems h v) = vsize v"
  by (simp add: elems_def)

lemma nth_elems: "k < vsize v \<Longrightarrow> elems h v ! k = load h (vptr v) k"
  by (simp add: elems_def load_def)

lemma elems_eqI:
  assumes "vsize v \<le> length (buf h (vptr v))" and "length ys = vsize v"
    and "\<And>k. k < vsize v \<Longrightarrow> load h (vptr v) k = ys ! k"
  shows "elems h v = ys"
proof (rule nth_equalityI)
  show "length (elems h v) = length ys"
    using assms(1,2) by (simp add: length_elems)
  fix k assume "k < length (elems h v)"
  then have "k < vsize v"
    using assms(1) by (simp add: length_elems)
  then show "elems h v ! k = ys ! k"
    using assms(3) by (simp add: nth_elems)
qed

lemma nth_inserted:
  assumes "idx \<le> length es" and "k \<le> length es"
  shows "(take idx es @ x # drop idx es) ! k
     = (if k < idx then es ! k else if k = idx then x else es ! (k - 1))"
proof -
  have l: "length (take idx es) = idx"
    using assms(1) by simp
  show ?thesis
  proof (cases "k < idx")
    case True
    then show ?thesis using assms by (simp add: nth_append)
  next
    case False
    show ?thesis
    proof (cases "k = idx")
      case True
      then show ?thesis using assms by (simp add: nth_append)
    next
      case ne: False
      with False have gt: "idx < k" by simp
      then obtain j where j: "k - idx = Suc j" by (cases "k - idx") auto
      then have "idx + j = k - 1" by arith
      with False ne j assms show ?thesis
        by (simp add: nth_append l)
    qed
  qed
qed

lemma nth_erased:
  assumes "idx < length es" and "k < length es - 1"
  shows "(take idx es @ drop (Suc idx) es) ! k = (if k < idx then es ! k else es ! Suc k)"
proof -
  have l: "length (take idx es) = idx"
    using assms(1) by simp
  show ?thesis
  proof (cases "k < idx")
    case True
    then show ?thesis using assms by (simp add: nth_append)
  next
    case False
    then have "Suc idx + (k - idx) = Suc k" by arith
    with False assms show ?thesis
      by (simp add: nth_append l)
  qed
qed

lemma insert_then_erase: "idx \<le> length es \<Longrightarrow>
  take idx (take idx es @ x # drop idx es) @ drop (Suc idx) (take idx es @ x # drop idx es) = es"
  by simp

section \<open>Insert\<close>

lemma same_shape_length: "same_shape h h' \<Longrightarrow> length (buf h' q) = length (buf h q)"
  by (simp add: same_shape_def)

lemma same_shape_brk: "same_shape h h' \<Longrightarrow> brk h' = brk h"
  by (simp add: same_shape_def)

lemma same_shape_None: "same_shape h h' \<Longrightarrow> (blocks h' q = None) = (blocks h q = None)"
  by (simp add: same_shape_def)

lemma load_cong_blocks: "blocks h' q = blocks h q \<Longrightarrow> load h' q k = load h q k"
  by (simp add: load_def buf_def)

lemma buf_cong_blocks: "blocks h' q = blocks h q \<Longrightarrow> buf h' q = buf h q"
  by (simp add: buf_def)

lemma ArrayPtr_new_facts:
  assumes "ArrayPtr_new T n h = (array, h1)" and "0 < n"
  shows "array = brk h" and "brk h1 = Suc (brk h)"
    and "length (buf h1 (brk h)) = n"
    and "\<And>q. q \<noteq> brk h \<Longrightarrow> blocks h1 q = blocks h q"
  using assms by (auto simp: ArrayPtr_new_def buf_def)

lemma Insert_in_place_success:
  assumes wf: "wf_state (h, v)" and vs: "value_semantics T" and inpl: "vsize v < vcapacity v"
    and i: "idx \<le> vsize v" and ok: "Insert T (vptr v, int idx) x (h, v) = (Inr it, (h', v'))"
  shows "it = (vptr v', int idx)" and "v' = v\<lparr>vsize := Suc (vsize v)\<rparr>" and "same_shape h h'"
    and "\<And>k. k \<le> vsize v \<Longrightarrow> k \<noteq> idx \<Longrightarrow> load h' (vptr v') k =
          (if k < idx then load h (vptr v) k else load h (vptr v) (k - 1))"
    and "arg_outside h v x \<Longrightarrow> load h' (vptr v') idx = arg_read h x"
proof -
  let ?p = "vptr v"
  have chk: "IteratorChecking (?p, int idx) (begin_it v) (end_it v) = Inr ()"
    using Insert_check [OF wf] i by simp
  have idx: "nat (ptr_diff (?p, int idx) (begin_it v)) = idx"
    by (simp add: ptr_diff_def address_def begin_it_def)
  have nn: "?p \<noteq> 0"
    using wf inpl by (rule wf_nonnull)
  have len: "length (buf h ?p) = vcapacity v"
    using wf by (simp add: wf_state_def)
  from ok obtain h1 where sh: "InsertShift T v idx h = (Inr (), h1)"
    and asg: "assign_item T x ?p idx h1 = (Inr (), h')"
    and it: "it = ptr_add (?p, 0) (int idx)" and v': "v' = v\<lparr>vsize := Suc (vsize v)\<rparr>"
    unfolding Insert_in_place [OF inpl chk] idx
    by (auto split: prod.splits sum.splits)
  have s1: "same_shape h h1" using sh by (rule InsertShift_shape_eq)
  have s2: "same_shape h1 h'" using asg by (rule assign_item_shape_eq)
  have len1: "idx < length (buf h1 ?p)"
    using same_shape_length [OF s1, of ?p] len i inpl by simp
  show "v' = v\<lparr>vsize := Suc (vsize v)\<rparr>" by (rule v')
  show "it = (vptr v', int idx)" using it nn v' by (simp add: ptr_add_def)
  show "same_shape h h'" using s1 s2 by (rule same_shape_trans)
  show "load h' (vptr v') k = (if k < idx then load h ?p k else load h ?p (k - 1))"
    if k: "k \<le> vsize v" and ne: "k \<noteq> idx" for k
  proof -
    from ne consider "k < idx" | "idx < k" by arith
    then have "load h' ?p k = (if k < idx then load h ?p k else load h ?p (k - 1))"
    proof cases
      case 1
      have "load h' ?p k = load h1 ?p k"
        using asg 1 by (intro assign_item_frame_eq) auto
      also have "\<dots> = load h ?p k"
        using sh i 1 by (intro InsertShift_frame) auto
      finally show ?thesis using 1 by simp
    next
      case 2
      have "load h' ?p k = load h1 ?p k"
        using asg 2 by (intro assign_item_frame_eq) auto
      also have "\<dots> = load h ?p (k - 1)"
        by (rule InsertShift_cells [OF sh vs i _ 2 k]) (use len inpl in simp)
      finally show ?thesis using 2 by simp
    qed
    then show ?thesis by (simp add: v')
  qed
  show "load h' (vptr v') idx = arg_read h x" if out: "arg_outside h v x"
  proof -
    have "load h' ?p idx = arg_read h1 x"
      by (rule assign_item_value [OF asg vs len1])
    also have "\<dots> = arg_read h x"
    proof (rule arg_read_cong)
      fix b k assume "x = LvalueAt b k"
      with out have "b \<noteq> ?p" by simp
      then have "b \<noteq> ?p \<or> k < idx \<or> vsize v < k" by simp
      with sh i show "load h1 b k = load h b k" by (rule InsertShift_frame)
    qed
    finally show ?thesis by (simp add: v')
  qed
qed

lemma load_ArrayPtr_delete: "q \<noteq> p \<Longrightarrow> load (ArrayPtr_delete p h) q k = load h q k"
  by (rule load_cong_blocks) simp

lemma buf_ArrayPtr_delete: "q \<noteq> p \<Longrightarrow> buf (ArrayPtr_delete p h) q = buf h q"
  by (rule buf_cong_blocks) simp

lemma brk_ArrayPtr_delete [simp]: "brk (ArrayPtr_delete p h) = brk h"
  by (simp add: ArrayPtr_delete_def)

lemma grown_capacity_fits: "Suc c \<le> grown_capacity c"
  by (simp add: grown_capacity_def)

lemma Insert_growth_success:
  assumes wf: "wf_state (h, v)" and vs: "value_semantics T" and full: "vsize v = vcapacity v"
    and i: "idx \<le> vsize v" and ok: "Insert T (vptr v, int idx) x (h, v) = (Inr it, (h', v'))"
  shows "it = (vptr v', int idx)"
    and "v' = v\<lparr>vptr := brk h, vcapacity := grown_capacity (vcapacity v), vsize := Suc (vsize v)\<rparr>"
    and "brk h' = Suc (brk h)" and "blocks h' 0 = None"
    and "length (buf h' (vptr v')) = grown_capacity (vcapacity v)"
    and "\<And>k. k \<le> vsize v \<Longrightarrow> k \<noteq> idx \<Longrightarrow> load h' (vptr v') k =
          (if k < idx then load h (vptr v) k else load h (vptr v) (k - 1))"
    and "arg_outside h v x \<Longrightarrow> load h' (vptr v') idx = arg_read h x"
proof -
  let ?p = "vptr v" and ?a = "brk h" and ?c = "grown_capacity (vcapacity v)"
  have chk: "IteratorChecking (?p, int idx) (begin_it v) (end_it v) = Inr ()"
    using Insert_check [OF wf] i by simp
  have chk': "IteratorChecking (?p, int idx) (?p, 0) (end_it v) = Inr ()"
    using chk by (simp add: begin_it_def)
  have idx: "nat (ptr_diff (?p, int idx) (?p, 0)) = idx"
    by (simp add: ptr_diff_def address_def)
  have pa: "?p \<noteq> ?a" and a0: "?a \<noteq> 0" and n0: "blocks h 0 = None"
    using wf by (auto simp: wf_state_def)
  have pz: "?p \<noteq> 0 \<or> idx = 0"
  proof (cases "?p = 0")
    case True
    from wf_null(2) [OF wf this] i show ?thesis by simp
  next
    case False
    then show ?thesis by simp
  qed
  obtain array h1 where new: "ArrayPtr_new T ?c h = (array, h1)"
    by (cases "ArrayPtr_new T ?c h")
  note nf = ArrayPtr_new_facts [OF new grown_capacity_pos]
  have new': "ArrayPtr_new T ?c h = (?a, h1)"
    using new nf(1) by simp
  from ok obtain h2 h3 h4
    where asg: "assign_item T x ?a idx h1 = (Inr (), h2)"
      and d1: "DataOverwrite T (begin_it v) (ptr_add (begin_it v) (int idx)) (?a, 0) h2 = (Inr (), h3)"
      and d2: "DataOverwrite T (ptr_add (begin_it v) (int idx)) (end_it v) (?a, int idx + 1) h3 = (Inr (), h4)"
      and it: "it = ptr_add (?a, 0) (int idx)"
      and v': "v' = v\<lparr>vptr := ?a, vcapacity := ?c, vsize := Suc (vsize v)\<rparr>"
      and h': "h' = ArrayPtr_delete ?p h4"
    by (auto simp: Insert_def UniversalInsert_def Let_def begin_it_def chk' idx new' full
        split: prod.splits sum.splits)
  have d1': "DataOverwrite T (?p, int 0) (?p, int (0 + idx)) (?a, int 0) h2 = (Inr (), h3)"
    using d1 ptr_add_begin [OF pz] by (simp add: begin_it_def)
  have d2': "DataOverwrite T (?p, int idx) (?p, int (idx + (vsize v - idx))) (?a, int (Suc idx)) h3 = (Inr (), h4)"
    using d2 ptr_add_begin [OF pz] end_it_wf [OF wf] i by (simp add: add.commute)
  have s2: "same_shape h1 h2" using asg by (rule assign_item_shape_eq)
  have s3: "same_shape h2 h3" using d1 by (rule DataOverwrite_shape_eq)
  have s4: "same_shape h3 h4" using d2 by (rule DataOverwrite_shape_eq)
  have l1: "length (buf h1 ?a) = ?c" by (rule nf(3))
  have l2: "length (buf h2 ?a) = ?c" using same_shape_length [OF s2] l1 by simp
  have l3: "length (buf h3 ?a) = ?c" using same_shape_length [OF s3] l2 by simp
  have l4: "length (buf h4 ?a) = ?c" using same_shape_length [OF s4] l3 by simp
  have fits: "Suc (vsize v) \<le> ?c"
    using grown_capacity_fits [of "vcapacity v"] full by simp
  have old: "\<And>k. load h2 ?p k = load h ?p k"
  proof -
    fix k
    have "load h2 ?p k = load h1 ?p k"
      by (rule assign_item_frame_eq [OF asg]) (use pa in auto)
    also have "\<dots> = load h ?p k"
      using nf(4) [OF pa] by (rule load_cong_blocks)
    finally show "load h2 ?p k = load h ?p k" .
  qed
  show "v' = v\<lparr>vptr := ?a, vcapacity := ?c, vsize := Suc (vsize v)\<rparr>" by (rule v')
  show "it = (vptr v', int idx)" using it a0 v' by (simp add: ptr_add_def)
  show "brk h' = Suc (brk h)"
    using same_shape_brk [OF s2] same_shape_brk [OF s3] same_shape_brk [OF s4] nf(2) h' by simp
  have "blocks h1 0 = None" using nf(4) [of 0] a0 n0 by simp
  then have "blocks h4 0 = None"
    using same_shape_None [OF s2, of 0] same_shape_None [OF s3, of 0] same_shape_None [OF s4, of 0]
    by simp
  then show "blocks h' 0 = None" by (simp add: h')
  show "length (buf h' (vptr v')) = ?c"
    using l4 pa by (simp add: h' v' buf_ArrayPtr_delete)
  have del: "\<And>k. load h' ?a k = load h4 ?a k"
    using pa by (simp add: h' load_ArrayPtr_delete)
  show "load h' (vptr v') k = (if k < idx then load h ?p k else load h ?p (k - 1))"
    if k: "k \<le> vsize v" and ne: "k \<noteq> idx" for k
  proof -
    from ne consider "k < idx" | "idx < k" by arith
    then have "load h4 ?a k = (if k < idx then load h ?p k else load h ?p (k - 1))"
    proof cases
      case 1
      have "load h4 ?a k = load h3 ?a k"
        by (rule DataOverwrite_frame [OF d2']) (use 1 pa in auto)
      also have "\<dots> = load h2 ?p (0 + (k - 0))"
        by (rule DataOverwrite_cells [OF d1' vs]) (use pa l2 fits i 1 in auto)
      also have "\<dots> = load h ?p k"
        by (simp add: old)
      finally show ?thesis using 1 by simp
    next
      case 2
      have e: "idx + (k - Suc idx) = k - 1"
        using 2 by arith
      have "load h4 ?a k = load h3 ?p (idx + (k - Suc idx))"
        by (rule DataOverwrite_cells [OF d2' vs]) (use pa l3 fits i 2 k in auto)
      also have "\<dots> = load h3 ?p (k - 1)"
        unfolding e ..
      also have "\<dots> = load h2 ?p (k - 1)"
        by (rule DataOverwrite_frame [OF d1']) (use 2 pa in auto)
      also have "\<dots> = load h ?p (k - 1)"
        by (rule old)
      finally show ?thesis using 2 by simp
    qed
    with del [of k] show ?thesis by (simp add: v')
  qed
  show "load h' (vptr v') idx = arg_read h x" if out: "arg_outside h v x"
  proof -
    have "load h4 ?a idx = load h3 ?a idx"
      by (rule DataOverwrite_frame [OF d2']) (use pa in auto)
    also have "\<dots> = load h2 ?a idx"
      by (rule DataOverwrite_frame [OF d1']) (use pa in auto)
    also have "\<dots> = arg_read h1 x"
      by (rule assign_item_value [OF asg vs]) (use l1 fits i in simp)
    also have "\<dots> = arg_read h x"
    proof (rule arg_read_cong)
      fix b k assume "x = LvalueAt b k"
      with out have "b \<noteq> ?a" by simp
      from nf(4) [OF this] show "load h1 b k = load h b k" by (rule load_cong_blocks)
    qed
    finally show ?thesis using del [of idx] by (simp add: v')
  qed
qed

lemma Insert_success:
  assumes wf: "wf_state (h, v)" and vs: "value_semantics T"
    and i: "idx \<le> vsize v" and ok: "Insert T (vptr v, int idx) x (h, v) = (Inr it, (h', v'))"
  shows "it = (vptr v', int idx)" and "vsize v' = Suc (vsize v)"
    and "elems h' v' = take idx (elems h v) @ load h' (vptr v') idx # drop idx (elems h v)"
    and "wf_state (h', v')" and "vptr v' \<noteq> 0"
    and "arg_outside h v x \<Longrightarrow> load h' (vptr v') idx = arg_read h x"
proof -
  have len: "length (buf h (vptr v)) = vcapacity v" and le: "vsize v \<le> vcapacity v"
    and pb: "vptr v < brk h" and n0: "blocks h 0 = None"
    using wf by (simp_all add: wf_state_def)
  have les: "length (elems h v) = vsize v"
    using len le by (simp add: length_elems)
  let ?w = "load h' (vptr v') idx"
  have facts: "it = (vptr v', int idx) \<and> vsize v' = Suc (vsize v) \<and> wf_state (h', v')
      \<and> (\<forall>k\<le>vsize v. k \<noteq> idx \<longrightarrow> load h' (vptr v') k =
          (if k < idx then load h (vptr v) k else load h (vptr v) (k - 1)))
      \<and> (arg_outside h v x \<longrightarrow> ?w = arg_read h x)"
  proof (cases "vsize v = vcapacity v")
    case True
    note g = Insert_growth_success [OF wf vs True i ok]
    have "wf_state (h', v')"
      using g(3,4,5) grown_capacity_fits [of "vcapacity v"] True
      by (simp add: wf_state_def g(2))
    with g(1,6,7) show ?thesis by (simp add: g(2))
  next
    case False
    with le have inpl: "vsize v < vcapacity v" by simp
    note g = Insert_in_place_success [OF wf vs inpl i ok]
    have "wf_state (h', v')"
      using same_shape_brk [OF g(3)] same_shape_None [OF g(3), of 0]
        same_shape_length [OF g(3), of "vptr v"] pb n0 len inpl
      by (simp add: wf_state_def g(2))
    with g(1,4,5) show ?thesis by (simp add: g(2))
  qed
  then have cells: "\<And>k. k \<le> vsize v \<Longrightarrow> k \<noteq> idx \<Longrightarrow> load h' (vptr v') k =
          (if k < idx then load h (vptr v) k else load h (vptr v) (k - 1))"
    by blast
  from facts show "it = (vptr v', int idx)" and sz: "vsize v' = Suc (vsize v)"
    and wf': "wf_state (h', v')"
    by blast+
  from wf' sz show "vptr v' \<noteq> 0"
    using wf_null(2) [of h' v'] by auto
  from facts show "arg_outside h v x \<Longrightarrow> ?w = arg_read h x"
    by blast
  show "elems h' v' = take idx (elems h v) @ ?w # drop idx (elems h v)"
  proof (rule elems_eqI)
    show "vsize v' \<le> length (buf h' (vptr v'))"
      using wf' by (simp add: wf_state_def)
    show "length (take idx (elems h v) @ ?w # drop idx (elems h v)) = vsize v'"
      using les i sz by simp
    fix k assume "k < vsize v'"
    then have k: "k \<le> vsize v" using sz by simp
    have n: "(take idx (elems h v) @ ?w # drop idx (elems h v)) ! k
        = (if k < idx then elems h v ! k else if k = idx then ?w else elems h v ! (k - 1))"
      using i k les by (intro nth_inserted) simp_all
    show "load h' (vptr v') k = (take idx (elems h v) @ ?w # drop idx (elems h v)) ! k"
    proof (cases "k = idx")
      case True
      then show ?thesis unfolding n by simp
    next
      case False
      have "(if k < idx then elems h v ! k else if k = idx then ?w else elems h v ! (k - 1))
          = (if k < idx then load h (vptr v) k else load h (vptr v) (k - 1))"
        using i k False by (auto simp: nth_elems)
      with cells [OF k False] show ?thesis unfolding n by simp
    qed
  qed
qed

lemma assign_item_error_eq: "assign_item T item p i h = (Inl e, h') \<Longrightarrow> e = ElementThrow"
  using assign_item_error [of T item p i h e] by simp

lemma DataOverwrite_error_eq: "DataOverwrite T a b c h = (Inl e, h') \<Longrightarrow> e = ElementThrow"
  using DataOverwrite_error [of T a b c h e] by simp

lemma InsertShift_error_eq: "InsertShift T v idx h = (Inl e, h') \<Longrightarrow> e = ElementThrow"
  using InsertShift_error [of T v idx h e] by simp

lemma Insert_error_position:
  assumes "wf_state (h, v)"
  shows "(fst (Insert T pos x (h, v)) = Inl OutOfRange) = (\<not> position_within v (vsize v) pos)"
proof (cases "position_within v (vsize v) pos")
  case False
  then have "IteratorChecking pos (begin_it v) (end_it v) = Inl OutOfRange"
    using Insert_check_position [OF assms] by simp
  then have "fst (Insert T pos x (h, v)) = Inl OutOfRange"
    by (simp add: Insert_def UniversalInsert_def Let_def)
  with False show ?thesis by simp
next
  case True
  then have chk: "IteratorChecking pos (begin_it v) (end_it v) = Inr ()"
    using Insert_check_position [OF assms] by simp
  have "fst (Insert T pos x (h, v)) \<noteq> Inl OutOfRange"
  proof
    assume "fst (Insert T pos x (h, v)) = Inl OutOfRange"
    then have "OutOfRange = ElementThrow"
      using chk
      by (auto simp: Insert_def UniversalInsert_def Let_def
          split: if_splits prod.splits sum.splits
          dest: assign_item_error_eq DataOverwrite_error_eq InsertShift_error_eq)
    then show False by simp
  qed
  with True show ?thesis by simp
qed

lemma position_within_own:
  "position_within v n (vptr v, i) = (0 \<le> i \<and> i \<le> int n)"
  by (auto simp: position_within_iff address_def begin_it_def)

lemma Insert_error_cases:
  assumes "wf_state (h, v)"
  shows "(fst (Insert T (vptr v, i) x (h, v)) = Inl OutOfRange) = (i < 0 \<or> int (vsize v) < i)"
  unfolding Insert_error_position [OF assms] position_within_own by auto

text \<open>An \<open>Insert\<close> whose position passes the range check returns when no assignment of
  the element type throws.\<close>

lemma Insert_returns:
  assumes wf: "wf_state (h, v)" and nt: "never_throws T"
    and chk: "IteratorChecking pos (begin_it v) (end_it v) = Inr ()"
  shows "\<exists>it. fst (Insert T pos x (h, v)) = Inr it"
proof (cases "vsize v = vcapacity v")
  case False
  with wf have inpl: "vsize v < vcapacity v"
    by (simp add: wf_state_def)
  define idx where "idx = nat (ptr_diff pos (begin_it v))"
  obtain h1 where sh: "InsertShift T v idx h = (Inr (), h1)"
    using InsertShift_total [OF nt, of v idx h] by (cases "InsertShift T v idx h") simp
  obtain h2 where asg: "assign_item T x (vptr v) idx h1 = (Inr (), h2)"
    using assign_item_total [OF nt, of x "vptr v" idx h1]
    by (cases "assign_item T x (vptr v) idx h1") simp
  show ?thesis
    unfolding Insert_in_place [OF inpl chk] idx_def [symmetric] by (simp add: sh asg)
next
  case True
  define idx where "idx = nat (ptr_diff pos (begin_it v))"
  let ?c = "grown_capacity (vcapacity v)"
  obtain array h1 where new: "ArrayPtr_new T ?c h = (array, h1)"
    by (cases "ArrayPtr_new T ?c h")
  obtain h2 where asg: "assign_item T x array idx h1 = (Inr (), h2)"
    using assign_item_total [OF nt, of x array idx h1]
    by (cases "assign_item T x array idx h1") simp
  let ?d1 = "DataOverwrite T (begin_it v) (ptr_add (begin_it v) (int idx)) (array, 0) h2"
  obtain h3 where d1: "?d1 = (Inr (), h3)"
    using DataOverwrite_total [OF nt, of "begin_it v" "ptr_add (begin_it v) (int idx)" "(array, 0)" h2]
    by (cases ?d1) simp
  let ?d2 = "DataOverwrite T (ptr_add (begin_it v) (int idx)) (end_it v) (array, int idx + 1) h3"
  obtain h4 where d2: "?d2 = (Inr (), h4)"
    using DataOverwrite_total [OF nt, of "ptr_add (begin_it v) (int idx)" "end_it v"
        "(array, int idx + 1)" h3]
    by (cases ?d2) simp
  show ?thesis
    unfolding Insert_def UniversalInsert_def Let_def fst_conv snd_conv idx_def [symmetric]
    by (simp add: chk True new asg d1 d2)
qed

text \<open>
  C4. On a well-formed container, \<open>Insert(position, value)\<close> fails with the out-of-range
  error exactly when the address of the position is not \<open>begin() + k\<close> for a
  \<open>0 \<le> k \<le> size\<close>: for a position into the container's buffer, when it is before
  \<open>begin()\<close> or after \<open>end()\<close>; a position into another buffer is always rejected. An
  accepted call returns when no assignment of the element type throws. When the call
  returns (for an element type with value semantics), the returned position is
  \<open>begin() + k\<close> of the current buffer and addresses element \<open>k\<close>, the inserted one; the
  elements before it are the old elements before the position, the elements after it are
  the old elements from the position onward, in their order, and the size is one more.
  The inserted element has the value of the argument when the argument is not itself an
  element of the container (a \<open>const Type&\<close> to an element is read after the shift).
\<close>

theorem Insert_specification:
  assumes "wf_state (h, v)"
  shows "((fst (Insert T pos x (h, v)) = Inl OutOfRange) = (\<not> position_within v (vsize v) pos))
     \<and> ((fst (Insert T (vptr v, i) x (h, v)) = Inl OutOfRange) = (i < 0 \<or> int (vsize v) < i))
     \<and> (fst pos \<noteq> vptr v \<longrightarrow> 0 \<le> snd pos \<longrightarrow> snd pos < 2 ^ 40 \<longrightarrow> vsize v < 2 ^ 40 \<longrightarrow>
          fst (Insert T pos x (h, v)) = Inl OutOfRange)
     \<and> (never_throws T \<longrightarrow> position_within v (vsize v) pos \<longrightarrow>
          (\<exists>r. fst (Insert T pos x (h, v)) = Inr r))
     \<and> (value_semantics T \<longrightarrow> Insert T pos x (h, v) = (Inr it, (h', v')) \<longrightarrow>
          (\<exists>k\<le>vsize v. address pos = address (begin_it v) + int k
             \<and> it = ptr_add (begin_it v') (int k) \<and> it = (vptr v', int k) \<and> vptr v' \<noteq> 0
             \<and> k < vsize v'
             \<and> load h' (fst it) (nat (snd it)) = elems h' v' ! k
             \<and> take k (elems h' v') = take k (elems h v)
             \<and> drop (Suc k) (elems h' v') = drop k (elems h v)
             \<and> GetSize v' = GetSize v + 1
             \<and> (arg_outside h v x \<longrightarrow>
                  elems h' v' = take k (elems h v) @ arg_read h x # drop k (elems h v))))"
proof (intro conjI impI)
  show err: "(fst (Insert T pos x (h, v)) = Inl OutOfRange) = (\<not> position_within v (vsize v) pos)"
    using assms by (rule Insert_error_position)
  show "(fst (Insert T (vptr v, i) x (h, v)) = Inl OutOfRange) = (i < 0 \<or> int (vsize v) < i)"
    using assms by (rule Insert_error_cases)
  show "fst (Insert T pos x (h, v)) = Inl OutOfRange"
    if "fst pos \<noteq> vptr v" and "0 \<le> snd pos" and "snd pos < 2 ^ 40" and "vsize v < 2 ^ 40"
    using foreign_position [OF assms that] err by simp
  show "\<exists>r. fst (Insert T pos x (h, v)) = Inr r"
    if nt: "never_throws T" and w: "position_within v (vsize v) pos"
  proof (rule Insert_returns [OF assms nt])
    show "IteratorChecking pos (begin_it v) (end_it v) = Inr ()"
      using Insert_check_position [OF assms] w by simp
  qed
  assume vs: "value_semantics T" and ok: "Insert T pos x (h, v) = (Inr it, (h', v'))"
  from ok err have "position_within v (vsize v) pos"
    by auto
  then obtain k where le: "k \<le> vsize v" and a: "address pos = address (begin_it v) + int k"
    unfolding position_within_def by blast
  have "address pos = address (vptr v, int k)"
    using a by (simp add: address_def begin_it_def)
  from Insert_address_cong [OF this, of T x "(h, v)"] ok
  have ok': "Insert T (vptr v, int k) x (h, v) = (Inr it, (h', v'))"
    by simp
  note s = Insert_success [OF assms vs le ok']
  have len: "length (elems h v) = vsize v"
    using assms by (simp add: wf_state_def length_elems)
  have e: "elems h' v' = take k (elems h v) @ load h' (vptr v') k # drop k (elems h v)"
    by (rule s(3))
  have "it = ptr_add (begin_it v') (int k)"
    using s(1,5) by (simp add: ptr_add_begin)
  moreover have "k < vsize v'"
    using s(2) le by simp
  moreover have "load h' (fst it) (nat (snd it)) = elems h' v' ! k"
    using s(1,2) le by (simp add: nth_elems)
  moreover have "take k (elems h' v') = take k (elems h v)"
    using le len by (simp add: e)
  moreover have "drop (Suc k) (elems h' v') = drop k (elems h v)"
    using le len by (simp add: e)
  moreover have "GetSize v' = GetSize v + 1"
    using s(2) by (simp add: GetSize_def)
  moreover have "elems h' v' = take k (elems h v) @ arg_read h x # drop k (elems h v)"
    if "arg_outside h v x"
    using e s(6) [OF that] by simp
  ultimately show "\<exists>k\<le>vsize v. address pos = address (begin_it v) + int k
             \<and> it = ptr_add (begin_it v') (int k) \<and> it = (vptr v', int k) \<and> vptr v' \<noteq> 0
             \<and> k < vsize v'
             \<and> load h' (fst it) (nat (snd it)) = elems h' v' ! k
             \<and> take k (elems h' v') = take k (elems h v)
             \<and> drop (Suc k) (elems h' v') = drop k (elems h v)
             \<and> GetSize v' = GetSize v + 1
             \<and> (arg_outside h v x \<longrightarrow>
                  elems h' v' = take k (elems h v) @ arg_read h x # drop k (elems h v))"
    using le a s(1,5) by blast
qed

theorem Insert_specification_witness:
  "wf_state (heap_with [1, 2, 3, 0 :: int], vector_at 3 4)
   \<and> wf_state (heap_with [1, 2, 3 :: int], vector_at 3 3)
   \<and> value_semantics int_type \<and> never_throws int_type
   \<and> position_within (vector_at 3 4) (vsize (vector_at 3 4)) (1, 1)
   \<and> arg_outside (heap_with [1, 2, 3, 0 :: int]) (vector_at 3 4) (Lvalue 99)
   \<and> fst (Insert int_type (1, 1) (Lvalue 99) (heap_with [1, 2, 3, 0], vector_at 3 4)) = Inr (1, 1)
   \<and> elems (fst (snd (Insert int_type (1, 1) (Lvalue 99) (heap_with [1, 2, 3, 0], vector_at 3 4))))
        (snd (snd (Insert int_type (1, 1) (Lvalue 99) (heap_with [1, 2, 3, 0], vector_at 3 4))))
      = take 1 (elems (heap_with [1, 2, 3, 0]) (vector_at 3 4))
          @ arg_read (heap_with [1, 2, 3, 0]) (Lvalue 99)
          # drop 1 (elems (heap_with [1, 2, 3, 0]) (vector_at 3 4))
   \<and> take 1 (elems (heap_with [1, 2, 3, 0]) (vector_at 3 4))
          @ arg_read (heap_with [1, 2, 3, 0]) (Lvalue 99)
          # drop 1 (elems (heap_with [1, 2, 3, 0]) (vector_at 3 4)) = [1, 99, 2, 3 :: int]
   \<and> (\<exists>r. fst (Insert int_type (1, 1) (Lvalue 99) (heap_with [1, 2, 3, 0], vector_at 3 4)) = Inr r)
   \<and> fst (Insert int_type (1, 0) (LvalueAt 1 2) (heap_with [1, 2, 3, 0], vector_at 3 4)) = Inr (1, 0)
   \<and> drop (Suc 0)
        (elems (fst (snd (Insert int_type (1, 0) (LvalueAt 1 2) (heap_with [1, 2, 3, 0], vector_at 3 4))))
          (snd (snd (Insert int_type (1, 0) (LvalueAt 1 2) (heap_with [1, 2, 3, 0], vector_at 3 4)))))
      = drop 0 (elems (heap_with [1, 2, 3, 0]) (vector_at 3 4))
   \<and> elems (fst (snd (Insert int_type (1, 0) (LvalueAt 1 2) (heap_with [1, 2, 3, 0], vector_at 3 4))))
        (snd (snd (Insert int_type (1, 0) (LvalueAt 1 2) (heap_with [1, 2, 3, 0], vector_at 3 4))))
      = [2, 1, 2, 3 :: int]
   \<and> fst (Insert int_type (1, 4) (Lvalue 99) (heap_with [1, 2, 3, 0], vector_at 3 4)) = Inl OutOfRange
   \<and> fst (Insert int_type (2, 0) (Lvalue 99) (heap_with [1, 2, 3, 0], vector_at 3 4)) = Inl OutOfRange
   \<and> fst (Insert int_type (1, 1) (Lvalue 99) (heap_with [1, 2, 3], vector_at 3 3)) = Inr (2, 1)
   \<and> elems (fst (snd (Insert int_type (1, 1) (Lvalue 99) (heap_with [1, 2, 3], vector_at 3 3))))
        (snd (snd (Insert int_type (1, 1) (Lvalue 99) (heap_with [1, 2, 3], vector_at 3 3))))
      = take 1 (elems (heap_with [1, 2, 3]) (vector_at 3 3))
          @ arg_read (heap_with [1, 2, 3]) (Lvalue 99)
          # drop 1 (elems (heap_with [1, 2, 3]) (vector_at 3 3))"
proof -
  let ?h = "heap_with [1, 2, 3, 0 :: int]" and ?v = "vector_at 3 4"
  let ?g = "heap_with [1, 2, 3 :: int]" and ?u = "vector_at 3 3"
  let ?r = "Insert int_type (1, 1) (Lvalue 99) (?h, ?v)"
  let ?a = "Insert int_type (1, 0) (LvalueAt 1 2) (?h, ?v)"
  let ?s = "Insert int_type (1, 1) (Lvalue 99) (?g, ?u)"
  have wf: "wf_state (?h, ?v)"
    by (simp add: wf_state_def heap_with_def vector_at_def buf_def)
  have wg: "wf_state (?g, ?u)"
    by (simp add: wf_state_def heap_with_def vector_at_def buf_def)
  have vs: "value_semantics int_type"
    by (simp add: value_semantics_def int_type_def)
  have nt: "never_throws int_type"
    by (simp add: never_throws_def int_type_def)
  have pw: "position_within ?v (vsize ?v) (1, 1)"
    by (simp add: position_within_iff address_def begin_it_def vector_at_def)
  have out: "arg_outside ?h ?v (Lvalue 99)" and oug: "arg_outside ?g ?u (Lvalue 99)"
    by simp_all
  have f: "fst ?r = Inr (1, 1)"
    by code_simp
  then have r: "?r = (Inr (1, 1), (fst (snd ?r), snd (snd ?r)))"
    by (simp add: prod_eq_iff)
  from Insert_specification [OF wf, where T = int_type and pos = "(1, 1)" and x = "Lvalue 99"
      and it = "(1, 1)" and h' = "fst (snd ?r)" and v' = "snd (snd ?r)"] vs r out
  obtain k where k: "address ((1, 1) :: pointer) = address (begin_it ?v) + int k"
    and e: "elems (fst (snd ?r)) (snd (snd ?r))
      = take k (elems ?h ?v) @ arg_read ?h (Lvalue 99) # drop k (elems ?h ?v)"
    by blast
  have "k = 1"
    using k by (simp add: address_def begin_it_def vector_at_def)
  with e have e1: "elems (fst (snd ?r)) (snd (snd ?r))
      = take 1 (elems ?h ?v) @ arg_read ?h (Lvalue 99) # drop 1 (elems ?h ?v)"
    by simp
  have l: "take 1 (elems ?h ?v) @ arg_read ?h (Lvalue 99) # drop 1 (elems ?h ?v) = [1, 99, 2, 3]"
    by code_simp
  from Insert_specification [OF wf, where T = int_type and pos = "(1, 1)" and x = "Lvalue 99"] nt pw
  have ret: "\<exists>r. fst ?r = Inr r"
    by blast
  have fa: "fst ?a = Inr (1, 0)"
    by code_simp
  then have a: "?a = (Inr (1, 0), (fst (snd ?a), snd (snd ?a)))"
    by (simp add: prod_eq_iff)
  from Insert_specification [OF wf, where T = int_type and pos = "(1, 0)" and x = "LvalueAt 1 2"
      and it = "(1, 0)" and h' = "fst (snd ?a)" and v' = "snd (snd ?a)"] vs a
  obtain j where j: "address ((1, 0) :: pointer) = address (begin_it ?v) + int j"
    and d: "drop (Suc j) (elems (fst (snd ?a)) (snd (snd ?a))) = drop j (elems ?h ?v)"
    by blast
  have "j = 0"
    using j by (simp add: address_def begin_it_def vector_at_def)
  with d have d0: "drop (Suc 0) (elems (fst (snd ?a)) (snd (snd ?a))) = drop 0 (elems ?h ?v)"
    by simp
  have al: "elems (fst (snd ?a)) (snd (snd ?a)) = [2, 1, 2, 3]"
    by code_simp
  from Insert_specification [OF wf, where T = int_type and i = 4 and x = "Lvalue 99"]
  have o: "fst (Insert int_type (1, 4) (Lvalue 99) (?h, ?v)) = Inl OutOfRange"
    by (simp add: vector_at_def)
  from Insert_specification [OF wf, where T = int_type and pos = "(2, 0)" and x = "Lvalue 99"]
  have fo: "fst (Insert int_type (2, 0) (Lvalue 99) (?h, ?v)) = Inl OutOfRange"
    by (simp add: vector_at_def)
  have fs: "fst ?s = Inr (2, 1)"
    by code_simp
  then have s: "?s = (Inr (2, 1), (fst (snd ?s), snd (snd ?s)))"
    by (simp add: prod_eq_iff)
  from Insert_specification [OF wg, where T = int_type and pos = "(1, 1)" and x = "Lvalue 99"
      and it = "(2, 1)" and h' = "fst (snd ?s)" and v' = "snd (snd ?s)"] vs s oug
  obtain m where m: "address ((1, 1) :: pointer) = address (begin_it ?u) + int m"
    and eg: "elems (fst (snd ?s)) (snd (snd ?s))
      = take m (elems ?g ?u) @ arg_read ?g (Lvalue 99) # drop m (elems ?g ?u)"
    by blast
  have "m = 1"
    using m by (simp add: address_def begin_it_def vector_at_def)
  with eg have eg1: "elems (fst (snd ?s)) (snd (snd ?s))
      = take 1 (elems ?g ?u) @ arg_read ?g (Lvalue 99) # drop 1 (elems ?g ?u)"
    by simp
  from wf wg vs nt pw out f e1 l ret fa d0 al o fo fs eg1 show ?thesis
    by blast
qed

section \<open>Erase\<close>

text \<open>
  C5. The claim fails on a default constructed container: its buffer is \<open>nullptr\<close>, so
  \<open>cend() - 1\<close> is \<open>nullptr - 1\<close>, the highest address, and the range check of \<open>Erase\<close>
  lets \<open>begin()\<close> through although \<open>begin() == end()\<close>. The call returns and \<open>--size_\<close>
  wraps the size to \<open>2^64 - 1\<close>.
\<close>

theorem Erase_on_default_container:
  "begin_it SimpleVector_default = end_it SimpleVector_default
   \<and> Erase T (begin_it SimpleVector_default) (h, SimpleVector_default)
       = (Inr (begin_it SimpleVector_default),
          (h, \<lparr>vptr = 0, vsize = 2 ^ 64 - 1, vcapacity = 0\<rparr>))"
  by (simp add: Erase_def IteratorChecking_def begin_it_def end_it_def ptr_add_def ptr_less_def
      address_def SimpleVector_default_def DataOverwrite_def ptr_diff_def size_t_dec_def Let_def)

text \<open>With a buffer (a non-null pointer) the range check of \<open>Erase\<close> is the one the
  comment in the source intends.\<close>

lemma Erase_check:
  "wf_state (h, v) \<Longrightarrow> vptr v \<noteq> 0 \<Longrightarrow>
   IteratorChecking (vptr v, i) (begin_it v) (ptr_add (end_it v) (- 1))
     = (if i < 0 \<or> int (vsize v) \<le> i then Inl OutOfRange else Inr ())"
  by (auto simp: IteratorChecking_def ptr_less_def address_def begin_it_def end_it_wf ptr_add_def)

lemma Erase_error_cases:
  assumes "wf_state (h, v)" and "vptr v \<noteq> 0"
  shows "(fst (Erase T (vptr v, i) (h, v)) = Inl OutOfRange) = (i < 0 \<or> int (vsize v) \<le> i)"
proof (cases "i < 0 \<or> int (vsize v) \<le> i")
  case True
  then have "IteratorChecking (vptr v, i) (begin_it v) (ptr_add (end_it v) (- 1)) = Inl OutOfRange"
    using Erase_check [OF assms] by simp
  then have "fst (Erase T (vptr v, i) (h, v)) = Inl OutOfRange"
    by (simp add: Erase_def Let_def)
  with True show ?thesis by simp
next
  case False
  then have chk: "IteratorChecking (vptr v, i) (begin_it v) (ptr_add (end_it v) (- 1)) = Inr ()"
    using Erase_check [OF assms] by simp
  have "fst (Erase T (vptr v, i) (h, v)) \<noteq> Inl OutOfRange"
  proof
    assume "fst (Erase T (vptr v, i) (h, v)) = Inl OutOfRange"
    then have "OutOfRange = ElementThrow"
      using chk
      by (auto simp: Erase_def Let_def split: prod.splits sum.splits dest: DataOverwrite_error_eq)
    then show False by simp
  qed
  with False show ?thesis by simp
qed

lemma Erase_success:
  assumes wf: "wf_state (h, v)" and vs: "value_semantics T" and nn: "vptr v \<noteq> 0"
    and i: "idx < vsize v" and ok: "Erase T (vptr v, int idx) (h, v) = (Inr it, (h', v'))"
  shows "it = (vptr v, int idx)" and "v' = v\<lparr>vsize := vsize v - 1\<rparr>"
    and "elems h' v' = take idx (elems h v) @ drop (Suc idx) (elems h v)"
    and "same_shape h h'"
proof -
  let ?p = "vptr v"
  have chk: "IteratorChecking (?p, int idx) (begin_it v) (ptr_add (end_it v) (- 1)) = Inr ()"
    using Erase_check [OF wf nn] i by simp
  have len: "length (buf h ?p) = vcapacity v" and le: "vsize v \<le> vcapacity v"
    using wf by (simp_all add: wf_state_def)
  from ok have d: "DataOverwrite T (ptr_add (?p, int idx) 1) (end_it v) (?p, int idx) h = (Inr (), h')"
    and it: "it = (?p, int idx)" and v0: "v' = v\<lparr>vsize := size_t_dec (vsize v)\<rparr>"
    by (auto simp: Erase_def Let_def chk split: prod.splits sum.splits)
  have d': "DataOverwrite T (?p, int (Suc idx)) (?p, int (Suc idx + (vsize v - Suc idx))) (?p, int idx) h
      = (Inr (), h')"
    using d nn i end_it_wf [OF wf] by (simp add: ptr_add_def add.commute)
  show "it = (?p, int idx)" by (rule it)
  show v': "v' = v\<lparr>vsize := vsize v - 1\<rparr>"
    using v0 i by (simp add: size_t_dec_def)
  show sh: "same_shape h h'"
    using d by (rule DataOverwrite_shape_eq)
  have les: "length (elems h v) = vsize v"
    using len le by (simp add: length_elems)
  show "elems h' v' = take idx (elems h v) @ drop (Suc idx) (elems h v)"
  proof (rule elems_eqI)
    show "vsize v' \<le> length (buf h' (vptr v'))"
      using same_shape_length [OF sh, of ?p] len le by (simp add: v')
    show "length (take idx (elems h v) @ drop (Suc idx) (elems h v)) = vsize v'"
      using les i by (simp add: v')
    fix k assume "k < vsize v'"
    then have k: "k < vsize v - 1" by (simp add: v')
    have "load h' ?p k = (if k < idx then load h ?p k else load h ?p (Suc k))"
    proof (cases "k < idx")
      case True
      have "load h' ?p k = load h ?p k"
        by (rule DataOverwrite_frame [OF d']) (use True in auto)
      with True show ?thesis by simp
    next
      case False
      have e: "Suc idx + (k - idx) = Suc k"
        using False by arith
      have "load h' ?p k = load h ?p (Suc idx + (k - idx))"
        by (rule DataOverwrite_cells [OF d' vs]) (use False k i len le in auto)
      with False show ?thesis
        unfolding e by simp
    qed
    also have "\<dots> = (if k < idx then elems h v ! k else elems h v ! Suc k)"
      using k i by (auto simp: nth_elems)
    also have "\<dots> = (take idx (elems h v) @ drop (Suc idx) (elems h v)) ! k"
      using i k les by (intro nth_erased [symmetric]) simp_all
    finally show "load h' (vptr v') k = (take idx (elems h v) @ drop (Suc idx) (elems h v)) ! k"
      by (simp add: v')
  qed
qed

lemma DataOverwrite_nothrow:
  "nothrow_sound T \<Longrightarrow> is_nothrow_move_assignable T \<Longrightarrow> fst (DataOverwrite T a b c h) = Inr ()"
  by (simp add: DataOverwrite_def Let_def move_range_nothrow)

lemma Erase_returns:
  assumes "never_throws T"
    and "IteratorChecking pos (begin_it v) (ptr_add (end_it v) (- 1)) = Inr ()"
  shows "\<exists>it. fst (Erase T pos (h, v)) = Inr it"
  using DataOverwrite_total [OF assms(1), of "ptr_add pos 1" "end_it v" pos h] assms(2)
  by (auto simp: Erase_def Let_def split: prod.splits sum.splits)

lemma Erase_nothrow:
  assumes "nothrow_sound T" and "is_nothrow_move_assignable T"
    and "IteratorChecking pos (begin_it v) (ptr_add (end_it v) (- 1)) = Inr ()"
  shows "\<exists>it. fst (Erase T pos (h, v)) = Inr it"
  using DataOverwrite_nothrow [OF assms(1,2), of "ptr_add pos 1" "end_it v" pos h] assms(3)
  by (auto simp: Erase_def Let_def split: prod.splits sum.splits)

text \<open>
  C8. On a well-formed container, for \<open>0 \<le> i \<le> size\<close> and an element type with value
  semantics: after \<open>Insert(begin() + i, x)\<close> has returned, \<open>Erase(begin() + i)\<close> does not
  fail with the out-of-range error, and when it returns the element sequence and the size
  are those before the insertion; it does return when the move assignment is nothrow.
  When no assignment of the element type throws, both calls return, and the element
  sequence and the size after them are the original ones.
\<close>

theorem Insert_then_Erase:
  assumes "wf_state (h, v)" and "value_semantics T" and "0 \<le> i" and "i \<le> int (vsize v)"
  shows "(\<forall>it s1. Insert T (ptr_add (begin_it v) i) x (h, v) = (Inr it, s1) \<longrightarrow>
            fst (Erase T (ptr_add (begin_it (snd s1)) i) s1) \<noteq> Inl OutOfRange
            \<and> (\<forall>it2 s2. Erase T (ptr_add (begin_it (snd s1)) i) s1 = (Inr it2, s2) \<longrightarrow>
                 elems (fst s2) (snd s2) = elems h v \<and> GetSize (snd s2) = GetSize v)
            \<and> (nothrow_sound T \<longrightarrow> is_nothrow_move_assignable T \<longrightarrow>
                 (\<exists>it2. fst (Erase T (ptr_add (begin_it (snd s1)) i) s1) = Inr it2)))
     \<and> (never_throws T \<longrightarrow>
          (\<exists>it s1 it2 s2. Insert T (ptr_add (begin_it v) i) x (h, v) = (Inr it, s1)
             \<and> Erase T (ptr_add (begin_it (snd s1)) i) s1 = (Inr it2, s2)
             \<and> elems (fst s2) (snd s2) = elems h v \<and> GetSize (snd s2) = GetSize v))"
proof -
  define idx where "idx = nat i"
  have i: "i = int idx" and le: "idx \<le> vsize v"
    using assms(3,4) by (simp_all add: idx_def)
  have "vptr v \<noteq> 0 \<or> idx = 0"
  proof (cases "vptr v = 0")
    case True
    from wf_null(2) [OF assms(1) this] le show ?thesis by simp
  next
    case False
    then show ?thesis by simp
  qed
  then have pos: "ptr_add (begin_it v) i = (vptr v, int idx)"
    unfolding i by (rule ptr_add_begin)
  have after: "ptr_add (begin_it v1) i = (vptr v1, int idx) \<and> wf_state (h1, v1) \<and> vptr v1 \<noteq> 0
      \<and> idx < vsize v1
      \<and> (\<forall>it2 h2 v2. Erase T (vptr v1, int idx) (h1, v1) = (Inr it2, (h2, v2)) \<longrightarrow>
            elems h2 v2 = elems h v \<and> GetSize v2 = GetSize v)"
    if ok: "Insert T (vptr v, int idx) x (h, v) = (Inr it, (h1, v1))" for it h1 v1
  proof -
    note s = Insert_success [OF assms(1,2) le ok]
    have "vptr v1 \<noteq> 0 \<or> idx = 0"
      using s(5) by simp
    then have pos1: "ptr_add (begin_it v1) i = (vptr v1, int idx)"
      unfolding i by (rule ptr_add_begin)
    have lt: "idx < vsize v1"
      using s(2) le by simp
    have len: "length (elems h v) = vsize v"
      using assms(1) by (simp add: wf_state_def length_elems)
    have "elems h2 v2 = elems h v \<and> GetSize v2 = GetSize v"
      if "Erase T (vptr v1, int idx) (h1, v1) = (Inr it2, (h2, v2))" for it2 h2 v2
    proof -
      note e = Erase_success [OF s(4) assms(2) s(5) lt that]
      have "elems h2 v2 = elems h v"
        using le len unfolding e(3) s(3) by simp
      moreover have "GetSize v2 = GetSize v"
        using e(2) s(2) by (simp add: GetSize_def)
      ultimately show ?thesis ..
    qed
    with pos1 s(4,5) lt show ?thesis by blast
  qed
  have first: "fst (Erase T (ptr_add (begin_it (snd s1)) i) s1) \<noteq> Inl OutOfRange
            \<and> (\<forall>it2 s2. Erase T (ptr_add (begin_it (snd s1)) i) s1 = (Inr it2, s2) \<longrightarrow>
                 elems (fst s2) (snd s2) = elems h v \<and> GetSize (snd s2) = GetSize v)
            \<and> (nothrow_sound T \<longrightarrow> is_nothrow_move_assignable T \<longrightarrow>
                 (\<exists>it2. fst (Erase T (ptr_add (begin_it (snd s1)) i) s1) = Inr it2))"
    if ins: "Insert T (ptr_add (begin_it v) i) x (h, v) = (Inr it, s1)" for it s1
  proof -
    obtain h1 v1 where s1: "s1 = (h1, v1)" by (cases s1)
    have ok: "Insert T (vptr v, int idx) x (h, v) = (Inr it, (h1, v1))"
      using ins unfolding pos s1 .
    note f = after [OF ok]
    from f have pos1: "ptr_add (begin_it v1) i = (vptr v1, int idx)" and wf1: "wf_state (h1, v1)"
      and nn1: "vptr v1 \<noteq> 0" and lt: "idx < vsize v1"
      by blast+
    have a: "fst (Erase T (vptr v1, int idx) (h1, v1)) \<noteq> Inl OutOfRange"
      using Erase_error_cases [OF wf1 nn1, of T "int idx"] lt by simp
    have b: "elems h2 v2 = elems h v \<and> GetSize v2 = GetSize v"
      if "Erase T (vptr v1, int idx) (h1, v1) = (Inr it2, (h2, v2))" for it2 h2 v2
      using f that by blast
    have c: "\<exists>it2. fst (Erase T (vptr v1, int idx) (h1, v1)) = Inr it2"
      if "nothrow_sound T" and "is_nothrow_move_assignable T"
    proof (rule Erase_nothrow [OF that])
      show "IteratorChecking (vptr v1, int idx) (begin_it v1) (ptr_add (end_it v1) (- 1)) = Inr ()"
        using Erase_check [OF wf1 nn1, of "int idx"] lt by simp
    qed
    show ?thesis
      unfolding s1 snd_conv fst_conv pos1 using a b c by auto
  qed
  have second: "\<exists>it s1 it2 s2. Insert T (ptr_add (begin_it v) i) x (h, v) = (Inr it, s1)
             \<and> Erase T (ptr_add (begin_it (snd s1)) i) s1 = (Inr it2, s2)
             \<and> elems (fst s2) (snd s2) = elems h v \<and> GetSize (snd s2) = GetSize v"
    if nt: "never_throws T"
  proof -
    have chk: "IteratorChecking (vptr v, int idx) (begin_it v) (end_it v) = Inr ()"
      using Insert_check [OF assms(1)] le by simp
    from Insert_returns [OF assms(1) nt chk, of x]
    obtain it where "fst (Insert T (vptr v, int idx) x (h, v)) = Inr it" ..
    then obtain h1 v1 where ok: "Insert T (vptr v, int idx) x (h, v) = (Inr it, (h1, v1))"
      by (cases "Insert T (vptr v, int idx) x (h, v)") auto
    note f = after [OF ok]
    from f have pos1: "ptr_add (begin_it v1) i = (vptr v1, int idx)" and wf1: "wf_state (h1, v1)"
      and nn1: "vptr v1 \<noteq> 0" and lt: "idx < vsize v1"
      by blast+
    have chk1: "IteratorChecking (vptr v1, int idx) (begin_it v1) (ptr_add (end_it v1) (- 1)) = Inr ()"
      using Erase_check [OF wf1 nn1, of "int idx"] lt by simp
    from Erase_returns [OF nt chk1, of h1]
    obtain it2 where "fst (Erase T (vptr v1, int idx) (h1, v1)) = Inr it2" ..
    then obtain h2 v2 where er: "Erase T (vptr v1, int idx) (h1, v1) = (Inr it2, (h2, v2))"
      by (cases "Erase T (vptr v1, int idx) (h1, v1)") auto
    from f er have r: "elems h2 v2 = elems h v \<and> GetSize v2 = GetSize v"
      by blast
    have "Insert T (ptr_add (begin_it v) i) x (h, v) = (Inr it, (h1, v1))
        \<and> Erase T (ptr_add (begin_it (snd (h1, v1))) i) (h1, v1) = (Inr it2, (h2, v2))
        \<and> elems (fst (h2, v2)) (snd (h2, v2)) = elems h v \<and> GetSize (snd (h2, v2)) = GetSize v"
      using ok er r unfolding pos snd_conv fst_conv pos1 by simp
    then show ?thesis by blast
  qed
  from first second show ?thesis
    by blast
qed

theorem Insert_then_Erase_witness:
  "wf_state (heap_with [1, 2, 3, 0 :: int], vector_at 3 4)
   \<and> value_semantics int_type \<and> never_throws int_type
   \<and> (0 :: int) \<le> 1 \<and> 1 \<le> int (vsize (vector_at 3 4))
   \<and> fst (Insert int_type (ptr_add (begin_it (vector_at 3 4)) 1) (Lvalue 99)
        (heap_with [1, 2, 3, 0], vector_at 3 4)) = Inr (1, 1)
   \<and> fst (Erase int_type
        (ptr_add (begin_it (snd (snd (Insert int_type (ptr_add (begin_it (vector_at 3 4)) 1) (Lvalue 99)
           (heap_with [1, 2, 3, 0], vector_at 3 4))))) 1)
        (snd (Insert int_type (ptr_add (begin_it (vector_at 3 4)) 1) (Lvalue 99)
           (heap_with [1, 2, 3, 0], vector_at 3 4)))) = Inr (1, 1)
   \<and> elems
        (fst (snd (Erase int_type
          (ptr_add (begin_it (snd (snd (Insert int_type (ptr_add (begin_it (vector_at 3 4)) 1) (Lvalue 99)
             (heap_with [1, 2, 3, 0], vector_at 3 4))))) 1)
          (snd (Insert int_type (ptr_add (begin_it (vector_at 3 4)) 1) (Lvalue 99)
             (heap_with [1, 2, 3, 0], vector_at 3 4))))))
        (snd (snd (Erase int_type
          (ptr_add (begin_it (snd (snd (Insert int_type (ptr_add (begin_it (vector_at 3 4)) 1) (Lvalue 99)
             (heap_with [1, 2, 3, 0], vector_at 3 4))))) 1)
          (snd (Insert int_type (ptr_add (begin_it (vector_at 3 4)) 1) (Lvalue 99)
             (heap_with [1, 2, 3, 0], vector_at 3 4))))))
      = elems (heap_with [1, 2, 3, 0]) (vector_at 3 4)
   \<and> elems (heap_with [1, 2, 3, 0]) (vector_at 3 4) = [1, 2, 3 :: int]
   \<and> (\<exists>it s1 it2 s2.
        Insert int_type (ptr_add (begin_it (vector_at 3 4)) 1) (Lvalue 99)
          (heap_with [1, 2, 3, 0], vector_at 3 4) = (Inr it, s1)
        \<and> Erase int_type (ptr_add (begin_it (snd s1)) 1) s1 = (Inr it2, s2)
        \<and> elems (fst s2) (snd s2) = elems (heap_with [1, 2, 3, 0]) (vector_at 3 4)
        \<and> GetSize (snd s2) = GetSize (vector_at 3 4))
   \<and> wf_state (heap_with [1, 2, 3 :: int], vector_at 3 3)
   \<and> 1 \<le> int (vsize (vector_at 3 3))
   \<and> fst (Insert int_type (ptr_add (begin_it (vector_at 3 3)) 1) (Lvalue 99)
        (heap_with [1, 2, 3], vector_at 3 3)) = Inr (2, 1)
   \<and> fst (Erase int_type
        (ptr_add (begin_it (snd (snd (Insert int_type (ptr_add (begin_it (vector_at 3 3)) 1) (Lvalue 99)
           (heap_with [1, 2, 3], vector_at 3 3))))) 1)
        (snd (Insert int_type (ptr_add (begin_it (vector_at 3 3)) 1) (Lvalue 99)
           (heap_with [1, 2, 3], vector_at 3 3)))) = Inr (2, 1)
   \<and> elems
        (fst (snd (Erase int_type
          (ptr_add (begin_it (snd (snd (Insert int_type (ptr_add (begin_it (vector_at 3 3)) 1) (Lvalue 99)
             (heap_with [1, 2, 3], vector_at 3 3))))) 1)
          (snd (Insert int_type (ptr_add (begin_it (vector_at 3 3)) 1) (Lvalue 99)
             (heap_with [1, 2, 3], vector_at 3 3))))))
        (snd (snd (Erase int_type
          (ptr_add (begin_it (snd (snd (Insert int_type (ptr_add (begin_it (vector_at 3 3)) 1) (Lvalue 99)
             (heap_with [1, 2, 3], vector_at 3 3))))) 1)
          (snd (Insert int_type (ptr_add (begin_it (vector_at 3 3)) 1) (Lvalue 99)
             (heap_with [1, 2, 3], vector_at 3 3))))))
      = elems (heap_with [1, 2, 3]) (vector_at 3 3)"
proof -
  let ?h = "heap_with [1, 2, 3, 0 :: int]" and ?v = "vector_at 3 4"
  let ?g = "heap_with [1, 2, 3 :: int]" and ?u = "vector_at 3 3"
  let ?i = "Insert int_type (ptr_add (begin_it ?v) 1) (Lvalue 99) (?h, ?v)"
  let ?e = "Erase int_type (ptr_add (begin_it (snd (snd ?i))) 1) (snd ?i)"
  let ?j = "Insert int_type (ptr_add (begin_it ?u) 1) (Lvalue 99) (?g, ?u)"
  let ?f = "Erase int_type (ptr_add (begin_it (snd (snd ?j))) 1) (snd ?j)"
  have wf: "wf_state (?h, ?v)"
    by (simp add: wf_state_def heap_with_def vector_at_def buf_def)
  have wg: "wf_state (?g, ?u)"
    by (simp add: wf_state_def heap_with_def vector_at_def buf_def)
  have vs: "value_semantics int_type"
    by (simp add: value_semantics_def int_type_def)
  have nt: "never_throws int_type"
    by (simp add: never_throws_def int_type_def)
  have r: "(0 :: int) \<le> 1" "1 \<le> int (vsize ?v)"
    by (simp_all add: vector_at_def)
  have q: "1 \<le> int (vsize ?u)"
    by (simp add: vector_at_def)
  have f1: "fst ?i = Inr (1, 1)"
    by code_simp
  then have i: "?i = (Inr (1, 1), snd ?i)"
    by (simp add: prod_eq_iff)
  have f2: "fst ?e = Inr (1, 1)"
    by code_simp
  then have e: "?e = (Inr (1, 1), snd ?e)"
    by (simp add: prod_eq_iff)
  note t = Insert_then_Erase [OF wf vs r, where x = "Lvalue 99"]
  from t i e have same: "elems (fst (snd ?e)) (snd (snd ?e)) = elems ?h ?v"
    by blast
  have l: "elems ?h ?v = [1, 2, 3]"
    by code_simp
  from t nt have both: "\<exists>it s1 it2 s2. ?i = (Inr it, s1)
        \<and> Erase int_type (ptr_add (begin_it (snd s1)) 1) s1 = (Inr it2, s2)
        \<and> elems (fst s2) (snd s2) = elems ?h ?v \<and> GetSize (snd s2) = GetSize ?v"
    by blast
  have g1: "fst ?j = Inr (2, 1)"
    by code_simp
  then have j: "?j = (Inr (2, 1), snd ?j)"
    by (simp add: prod_eq_iff)
  have g2: "fst ?f = Inr (2, 1)"
    by code_simp
  then have f: "?f = (Inr (2, 1), snd ?f)"
    by (simp add: prod_eq_iff)
  from Insert_then_Erase [OF wg vs r(1) q, where x = "Lvalue 99"] j f
  have grown: "elems (fst (snd ?f)) (snd (snd ?f)) = elems ?g ?u"
    by blast
  from wf vs nt r f1 f2 same l both wg q g1 g2 grown show ?thesis
    by blast
qed

section \<open>Reserve\<close>

lemma Reserve_success:
  assumes wf: "wf_state (h, v)" and vs: "value_semantics T" and lt: "vcapacity v < c"
    and ok: "Reserve T c (h, v) = (Inr (), (h', v'))"
  shows "v' = v\<lparr>vptr := brk h, vcapacity := c\<rparr>" and "elems h' v' = elems h v"
proof -
  let ?p = "vptr v" and ?a = "brk h"
  have pa: "?p \<noteq> ?a" and len: "length (buf h ?p) = vcapacity v" and le: "vsize v \<le> vcapacity v"
    using wf by (auto simp: wf_state_def)
  have c0: "0 < c" using lt by simp
  obtain array h1 where new: "ArrayPtr_new T c h = (array, h1)"
    by (cases "ArrayPtr_new T c h")
  note nf = ArrayPtr_new_facts [OF new c0]
  have new': "ArrayPtr_new T c h = (?a, h1)"
    using new nf(1) by simp
  from ok lt obtain h2
    where d: "DataOverwrite T (begin_it v) (end_it v) (?a, 0) h1 = (Inr (), h2)"
      and v': "v' = v\<lparr>vptr := ?a, vcapacity := c\<rparr>"
      and h': "h' = ArrayPtr_delete ?p h2"
    by (auto simp: Reserve_def Let_def new' split: prod.splits sum.splits)
  have d': "DataOverwrite T (?p, int 0) (?p, int (0 + vsize v)) (?a, int 0) h1 = (Inr (), h2)"
    using d end_it_wf [OF wf] by (simp add: begin_it_def)
  have s: "same_shape h1 h2" using d by (rule DataOverwrite_shape_eq)
  have l2: "length (buf h2 ?a) = c"
    using same_shape_length [OF s, of ?a] nf(3) by simp
  show "v' = v\<lparr>vptr := ?a, vcapacity := c\<rparr>" by (rule v')
  show "elems h' v' = elems h v"
  proof (rule elems_eqI)
    show "vsize v' \<le> length (buf h' (vptr v'))"
      using l2 pa le lt by (simp add: v' h' buf_ArrayPtr_delete)
    show "length (elems h v) = vsize v'"
      using len le by (simp add: v' length_elems)
    fix k assume "k < vsize v'"
    then have k: "k < vsize v" by (simp add: v')
    have "load h' ?a k = load h2 ?a k"
      using pa by (simp add: h' load_ArrayPtr_delete)
    also have "\<dots> = load h1 ?p (0 + (k - 0))"
      by (rule DataOverwrite_cells [OF d' vs]) (use pa nf(3) k le lt in auto)
    also have "\<dots> = load h ?p k"
      using nf(4) [OF pa] by (simp add: load_cong_blocks [of h1 ?p h])
    finally show "load h' (vptr v') k = elems h v ! k"
      using k by (simp add: v' nth_elems)
  qed
qed

lemma Reserve_nothrow:
  assumes "nothrow_sound T" and "is_nothrow_move_assignable T"
  shows "fst (Reserve T c (h, v)) = Inr ()"
proof (cases "c \<le> vcapacity v")
  case True
  then show ?thesis by (simp add: Reserve_def)
next
  case False
  obtain array h1 where new: "ArrayPtr_new T c h = (array, h1)"
    by (cases "ArrayPtr_new T c h")
  from DataOverwrite_nothrow [OF assms, of "begin_it v" "end_it v" "(array, 0)" h1] False new
  show ?thesis
    by (auto simp: Reserve_def Let_def split: prod.splits sum.splits)
qed

text \<open>
  C9. \<open>Reserve(c)\<close> with \<open>c \<le> capacity\<close> returns with the heap and the container object
  as they were (size, capacity, buffer pointer, elements and their addresses). With
  \<open>c > capacity\<close>, on a well-formed container of an element type with value semantics, a
  \<open>Reserve(c)\<close> that returns leaves the capacity at exactly \<open>c\<close> and the size and the
  element values unchanged; it does return when the move assignment is nothrow.
\<close>

theorem Reserve_specification:
  "(c \<le> vcapacity v \<longrightarrow> Reserve T c (h, v) = (Inr (), (h, v)))
   \<and> (vcapacity v < c \<longrightarrow> wf_state (h, v) \<longrightarrow> value_semantics T \<longrightarrow>
        Reserve T c (h, v) = (Inr (), (h', v')) \<longrightarrow>
        GetCapacity v' = c \<and> GetSize v' = GetSize v \<and> elems h' v' = elems h v)
   \<and> (nothrow_sound T \<longrightarrow> is_nothrow_move_assignable T \<longrightarrow> fst (Reserve T c (h, v)) = Inr ())"
proof (intro conjI impI)
  assume "c \<le> vcapacity v"
  then show "Reserve T c (h, v) = (Inr (), (h, v))"
    by (simp add: Reserve_def)
next
  assume a: "vcapacity v < c" "wf_state (h, v)" "value_semantics T"
    "Reserve T c (h, v) = (Inr (), (h', v'))"
  note s = Reserve_success [OF a(2,3,1,4)]
  show "GetCapacity v' = c" by (simp add: s(1) GetCapacity_def)
  show "GetSize v' = GetSize v" by (simp add: s(1) GetSize_def)
  show "elems h' v' = elems h v" by (rule s(2))
next
  assume "nothrow_sound T" "is_nothrow_move_assignable T"
  then show "fst (Reserve T c (h, v)) = Inr ()"
    by (rule Reserve_nothrow)
qed

theorem Reserve_specification_witness:
  "(2 :: nat) \<le> vcapacity (vector_at 3 3)
   \<and> Reserve int_type 2 (heap_with [1, 2, 3], vector_at 3 3) = (Inr (), (heap_with [1, 2, 3], vector_at 3 3))
   \<and> vcapacity (vector_at 3 3) < 8
   \<and> wf_state (heap_with [1, 2, 3 :: int], vector_at 3 3)
   \<and> value_semantics int_type \<and> nothrow_sound int_type \<and> is_nothrow_move_assignable int_type
   \<and> fst (Reserve int_type 8 (heap_with [1, 2, 3], vector_at 3 3)) = Inr ()
   \<and> GetCapacity (snd (snd (Reserve int_type 8 (heap_with [1, 2, 3], vector_at 3 3)))) = 8
   \<and> GetSize (snd (snd (Reserve int_type 8 (heap_with [1, 2, 3], vector_at 3 3)))) = GetSize (vector_at 3 3)
   \<and> elems (fst (snd (Reserve int_type 8 (heap_with [1, 2, 3], vector_at 3 3))))
        (snd (snd (Reserve int_type 8 (heap_with [1, 2, 3], vector_at 3 3))))
      = elems (heap_with [1, 2, 3]) (vector_at 3 3)"
proof -
  let ?h = "heap_with [1, 2, 3 :: int]" and ?v = "vector_at 3 3"
  let ?r = "Reserve int_type 8 (?h, ?v)"
  have wf: "wf_state (?h, ?v)"
    by (simp add: wf_state_def heap_with_def vector_at_def buf_def)
  have vs: "value_semantics int_type"
    by (simp add: value_semantics_def int_type_def)
  have ns: "nothrow_sound int_type" and nt: "is_nothrow_move_assignable int_type"
    by (simp_all add: nothrow_sound_def int_type_def)
  have c: "(2 :: nat) \<le> vcapacity ?v" "vcapacity ?v < 8"
    by (simp_all add: vector_at_def)
  note t2 = Reserve_specification [of 2 ?v int_type ?h]
  note t8 = Reserve_specification [of 8 ?v int_type ?h "fst (snd ?r)" "snd (snd ?r)"]
  from t2 c(1) have noop: "Reserve int_type 2 (?h, ?v) = (Inr (), (?h, ?v))"
    by blast
  from t8 ns nt have f: "fst ?r = Inr ()"
    by blast
  then have r: "?r = (Inr (), (fst (snd ?r), snd (snd ?r)))"
    by (simp add: prod_eq_iff)
  from t8 c(2) wf vs r
  have "GetCapacity (snd (snd ?r)) = 8 \<and> GetSize (snd (snd ?r)) = GetSize ?v
      \<and> elems (fst (snd ?r)) (snd (snd ?r)) = elems ?h ?v"
    by blast
  with c noop wf vs ns nt f show ?thesis
    by blast
qed

end
